theory Spec2Isabelle
  imports Main "HOL-Library.Word"
begin

unbundle bit_operations_syntax

section \<open>Bytes, streams and errors\<close>

text \<open>
  A Python \<open>bytes\<close> value is a list of 8-bit words. A Python \<open>str\<close> is a list of
  Unicode code points (natural numbers below \<open>0x110000\<close>); \<open>len\<close> counts code points.
  A binary stream opened for reading is the list of the bytes from the current position to
  the end of the file; \<open>stream.read(n)\<close> returns at most \<open>n\<close> bytes and advances.
\<close>

type_synonym byte = "8 word"
type_synonym pystr = "nat list"
type_synonym stream = "byte list"

datatype reason =
    NameMismatch
  | FlagCloudMismatch
  | NonZeroPadding
  | IndexVersion
  | FileListVersion
  | ContentFileMissing

datatype error =
    NotSupportedError reason
  | UnicodeDecodeError
  | UnicodeEncodeError
  | OverflowError
  | ValueError
  | FileNotFoundError
  | FileExistsError
  | IsADirectoryError
  | NotADirectoryError

text \<open>
  A reader runs on a stream and returns a value or the exception raised, together with the
  stream as it is left: the position of a file object stays advanced when a read raises.
\<close>

type_synonym 'a reader = "stream \<Rightarrow> (error + 'a) \<times> stream"

definition ret :: "'a \<Rightarrow> 'a reader" where
  "ret a = (\<lambda>s. (Inr a, s))"

definition raise :: "error \<Rightarrow> 'a reader" where
  "raise e = (\<lambda>s. (Inl e, s))"

definition bnd :: "'a reader \<Rightarrow> ('a \<Rightarrow> 'b reader) \<Rightarrow> 'b reader" where
  "bnd m f = (\<lambda>s. case m s of (Inl e, s') \<Rightarrow> (Inl e, s') | (Inr a, s') \<Rightarrow> f a s')"

definition stream_read :: "nat \<Rightarrow> byte list reader" where
  "stream_read n = (\<lambda>s. (Inr (take n s), drop n s))"

section \<open>utils.py: integers\<close>

text \<open>\<open>int.from_bytes(data, "little")\<close>, for data of any length.\<close>

fun from_bytes_little :: "byte list \<Rightarrow> int" where
  "from_bytes_little [] = 0"
| "from_bytes_little (b # bs) = uint b + 256 * from_bytes_little bs"

text \<open>\<open>value.to_bytes(n, "little")\<close>: OverflowError when the value is negative or too big.\<close>

fun little_bytes :: "nat \<Rightarrow> int \<Rightarrow> byte list" where
  "little_bytes 0 v = []"
| "little_bytes (Suc n) v = word_of_int v # little_bytes n (v div 256)"

definition to_bytes_little :: "nat \<Rightarrow> int \<Rightarrow> error + byte list" where
  "to_bytes_little n v =
     (if 0 \<le> v \<and> v < 256 ^ n then Inr (little_bytes n v) else Inl OverflowError)"

definition read_u8 :: "int reader" where
  "read_u8 = bnd (stream_read 1) (\<lambda>data. if data = [] then ret 0 else ret (from_bytes_little data))"

definition read_u32 :: "int reader" where
  "read_u32 = bnd (stream_read 4) (\<lambda>data. if data = [] then ret 0 else ret (from_bytes_little data))"

definition read_u64 :: "int reader" where
  "read_u64 = bnd (stream_read 8) (\<lambda>data. if data = [] then ret 0 else ret (from_bytes_little data))"

text \<open>
  A writer returns the bytes it appends to the output, or the exception raised.
\<close>

type_synonym writer = "error + byte list"

definition wseq :: "writer \<Rightarrow> writer \<Rightarrow> writer" where
  "wseq a b = (case a of Inl e \<Rightarrow> Inl e
               | Inr x \<Rightarrow> (case b of Inl e \<Rightarrow> Inl e | Inr y \<Rightarrow> Inr (x @ y)))"

definition write_u8 :: "int \<Rightarrow> writer" where
  "write_u8 v = to_bytes_little 1 v"

definition write_u32 :: "int \<Rightarrow> writer" where
  "write_u32 v = to_bytes_little 4 v"

definition write_u64 :: "int \<Rightarrow> writer" where
  "write_u64 v = to_bytes_little 8 v"

section \<open>utils.py: UTF-16 strings\<close>

text \<open>
  \<open>str.encode("utf-16-le")\<close>: two bytes for a code point of the basic plane, a surrogate
  pair (four bytes) above it, UnicodeEncodeError for a surrogate code point. Code points
  from \<open>0x110000\<close> on do not occur in a Python string; the model rejects them as well.
\<close>

definition unit_bytes :: "nat \<Rightarrow> byte list" where
  "unit_bytes u = [of_nat (u mod 256), of_nat (u div 256)]"

definition code_units :: "nat \<Rightarrow> nat list" where
  "code_units c =
     (if c < 0x10000 then [c]
      else [0xD800 + (c - 0x10000) div 0x400, 0xDC00 + (c - 0x10000) mod 0x400])"

definition is_surrogate :: "nat \<Rightarrow> bool" where
  "is_surrogate u \<longleftrightarrow> 0xD800 \<le> u \<and> u < 0xE000"

fun utf16_le_encode :: "pystr \<Rightarrow> error + byte list" where
  "utf16_le_encode [] = Inr []"
| "utf16_le_encode (c # cs) =
     (if is_surrogate c \<or> 0x110000 \<le> c then Inl UnicodeEncodeError
      else (case utf16_le_encode cs of
              Inl e \<Rightarrow> Inl e
            | Inr bs \<Rightarrow> Inr (concat (map unit_bytes (code_units c)) @ bs)))"

text \<open>
  \<open>bytes.decode("utf-16-le")\<close> with the strict error handler: UnicodeDecodeError for an
  odd number of bytes, for a high surrogate not followed by a low one and for a low
  surrogate on its own.
\<close>

fun units_of_bytes :: "byte list \<Rightarrow> error + nat list" where
  "units_of_bytes [] = Inr []"
| "units_of_bytes [b] = Inl UnicodeDecodeError"
| "units_of_bytes (lo # hi # bs) =
     (case units_of_bytes bs of
        Inl e \<Rightarrow> Inl e
      | Inr us \<Rightarrow> Inr ((unat lo + 256 * unat hi) # us))"

fun decode_units :: "nat list \<Rightarrow> error + pystr" where
  "decode_units [] = Inr []"
| "decode_units (u # us) =
     (if \<not> is_surrogate u then
        (case decode_units us of Inl e \<Rightarrow> Inl e | Inr cs \<Rightarrow> Inr (u # cs))
      else if u < 0xDC00 then
        (case us of
           [] \<Rightarrow> Inl UnicodeDecodeError
         | u2 # us' \<Rightarrow>
             (if 0xDC00 \<le> u2 \<and> u2 < 0xE000 then
                (case decode_units us' of
                   Inl e \<Rightarrow> Inl e
                 | Inr cs \<Rightarrow> Inr ((0x10000 + (u - 0xD800) * 0x400 + (u2 - 0xDC00)) # cs))
              else Inl UnicodeDecodeError))
      else Inl UnicodeDecodeError)"

definition utf16_le_decode :: "byte list \<Rightarrow> error + pystr" where
  "utf16_le_decode bs =
     (case units_of_bytes bs of Inl e \<Rightarrow> Inl e | Inr us \<Rightarrow> decode_units us)"

definition lift_result :: "error + 'a \<Rightarrow> 'a reader" where
  "lift_result r = (\<lambda>s. (r, s))"

definition read_utf16_string :: "pystr reader" where
  "read_utf16_string =
     bnd read_u32 (\<lambda>len.
       if len = 0 then ret []
       else bnd (stream_read (nat (len * 2))) (\<lambda>data. lift_result (utf16_le_decode data)))"

text \<open>\<open>s.rstrip("\0")\<close>\<close>

definition rstrip_nul :: "pystr \<Rightarrow> pystr" where
  "rstrip_nul s = rev (dropWhile (\<lambda>c. c = 0) (rev s))"

text \<open>The width of a fixed string is a natural number (the manifest codec passes 64).\<close>

definition read_utf16_fixed_string :: "nat \<Rightarrow> pystr reader" where
  "read_utf16_fixed_string len =
     bnd (stream_read (len * 2)) (\<lambda>raw.
       bnd (lift_result (utf16_le_decode raw)) (\<lambda>s. ret (rstrip_nul s)))"

definition write_utf16_string :: "pystr \<Rightarrow> writer" where
  "write_utf16_string v = wseq (write_u32 (int (length v))) (utf16_le_encode v)"

text \<open>
  \<open>write_utf16_fixed_string\<close>: the encoded value, then \<open>padding_chars * 2\<close> zero bytes when
  \<open>padding_chars = length - len(value)\<close> is positive.
\<close>

definition write_utf16_fixed_string :: "pystr \<Rightarrow> int \<Rightarrow> writer" where
  "write_utf16_fixed_string v len =
     wseq (utf16_le_encode v)
       (let padding_chars = len - int (length v)
        in if padding_chars > 0 then Inr (replicate (nat (padding_chars * 2)) 0) else Inr [])"

section \<open>xbox_fs.py\<close>

text \<open>\<open>FileTime\<close> wraps the 64-bit tick count as a Python integer.\<close>

datatype FileTime = FileTime (ft_value: int)

definition FileTime_from_stream :: "FileTime reader" where
  "FileTime_from_stream = bnd read_u64 (\<lambda>v. ret (FileTime v))"

definition FileTime_to_bytes :: "FileTime \<Rightarrow> writer" where
  "FileTime_to_bytes t = to_bytes_little 8 (ft_value t)"

text \<open>
  \<open>uuid.UUID\<close> holds a 128-bit integer. \<open>UUID(bytes=b)\<close> raises ValueError unless \<open>b\<close> has
  16 bytes and reads them big-endian; \<open>.bytes\<close> are the 16 big-endian bytes; \<open>.bytes_le\<close>
  is \<open>bytes[3::-1] + bytes[5:3:-1] + bytes[7:5:-1] + bytes[8:]\<close>.
\<close>

type_synonym UUID = "128 word"

definition UUID_of_bytes :: "byte list \<Rightarrow> error + UUID" where
  "UUID_of_bytes b =
     (if length b \<noteq> 16 then Inl ValueError else Inr (word_of_int (from_bytes_little (rev b))))"

definition UUID_bytes :: "UUID \<Rightarrow> byte list" where
  "UUID_bytes u = rev (little_bytes 16 (uint u))"

definition UUID_bytes_le :: "UUID \<Rightarrow> byte list" where
  "UUID_bytes_le u =
     (let bytes = UUID_bytes u
      in rev (take 4 bytes) @ rev (take 2 (drop 4 bytes)) @ rev (take 2 (drop 6 bytes))
         @ drop 8 bytes)"

text \<open>\<open>bytes.hex()\<close>: two lower-case hexadecimal digits for each byte.\<close>

definition hex_digit :: "nat \<Rightarrow> nat" where
  "hex_digit d = (if d < 10 then 48 + d else 87 + d)"

definition bytes_hex :: "byte list \<Rightarrow> pystr" where
  "bytes_hex bs = concat (map (\<lambda>b. [hex_digit (unat b div 16), hex_digit (unat b mod 16)]) bs)"

text \<open>
  \<open>str.upper()\<close> on the ASCII letters; the strings it is applied to here are the digits
  and letters \<open>bytes.hex()\<close> returns.
\<close>

definition str_upper :: "pystr \<Rightarrow> pystr" where
  "str_upper s = map (\<lambda>c. if 97 \<le> c \<and> c \<le> 122 then c - 32 else c) s"

record Container =
  container_name :: pystr
  cloud_id :: pystr
  seq :: int
  flag :: int
  container_uuid :: UUID
  mtime :: FileTime
  csize :: int

definition Container_from_stream :: "Container reader" where
  "Container_from_stream =
     bnd read_utf16_string (\<lambda>container_name.
     bnd read_utf16_string (\<lambda>container_name_null_term.
       if container_name \<noteq> container_name_null_term
       then raise (NotSupportedError NameMismatch)
       else
     bnd read_utf16_string (\<lambda>cloud_id.
     bnd read_u8 (\<lambda>seq.
     bnd read_u32 (\<lambda>flag.
       if (cloud_id = [] \<and> flag AND 4 = 0) \<or> (cloud_id \<noteq> [] \<and> flag AND 4 \<noteq> 0)
       then raise (NotSupportedError FlagCloudMismatch)
       else
     bnd (stream_read 16) (\<lambda>b.
     bnd (lift_result (UUID_of_bytes b)) (\<lambda>container_uuid.
     bnd FileTime_from_stream (\<lambda>mtime.
     bnd read_u64 (\<lambda>unknown.
       if unknown \<noteq> 0
       then raise (NotSupportedError NonZeroPadding)
       else
     bnd read_u64 (\<lambda>size.
       ret \<lparr>container_name = container_name, cloud_id = cloud_id, seq = seq, flag = flag,
            container_uuid = container_uuid, mtime = mtime, csize = size\<rparr>))))))))))"

definition Container_to_bytes :: "Container \<Rightarrow> writer" where
  "Container_to_bytes c =
     wseq (write_utf16_string (container_name c))
    (wseq (write_utf16_string (container_name c))
    (wseq (write_utf16_string (cloud_id c))
    (wseq (write_u8 (seq c))
    (wseq (write_u32 (flag c))
    (wseq (Inr (UUID_bytes (container_uuid c)))
    (wseq (FileTime_to_bytes (mtime c))
    (wseq (write_u64 0)
          (write_u64 (csize c)))))))))"

record ContainerIndex =
  flag1 :: int
  package_name :: pystr
  index_mtime :: FileTime
  flag2 :: int
  index_uuid :: pystr
  unknown :: int
  containers :: "Container list"

text \<open>The loop \<open>for _ in range(file_count): containers.append(Container.from_stream(stream))\<close>.\<close>

fun read_containers :: "nat \<Rightarrow> Container list reader" where
  "read_containers 0 = ret []"
| "read_containers (Suc n) =
     bnd Container_from_stream (\<lambda>c. bnd (read_containers n) (\<lambda>cs. ret (c # cs)))"

definition ContainerIndex_from_stream :: "ContainerIndex reader" where
  "ContainerIndex_from_stream =
     bnd read_u32 (\<lambda>version.
       if version \<noteq> 0xe
       then raise (NotSupportedError IndexVersion)
       else
     bnd read_u32 (\<lambda>file_count.
     bnd read_u32 (\<lambda>flag1.
     bnd read_utf16_string (\<lambda>package_name.
     bnd FileTime_from_stream (\<lambda>mtime.
     bnd read_u32 (\<lambda>flag2.
     bnd read_utf16_string (\<lambda>index_uuid.
     bnd read_u64 (\<lambda>unknown.
     bnd (read_containers (nat file_count)) (\<lambda>containers.
       ret \<lparr>flag1 = flag1, package_name = package_name, index_mtime = mtime, flag2 = flag2,
            index_uuid = index_uuid, unknown = unknown, containers = containers\<rparr>)))))))))"

text \<open>
  The bytes \<open>ContainerIndex.write_file\<close> writes to \<open>containers.index\<close>, in the order of its
  write calls.
\<close>

fun write_all :: "writer list \<Rightarrow> writer" where
  "write_all [] = Inr []"
| "write_all (w # ws) = wseq w (write_all ws)"

definition ContainerIndex_file_bytes :: "ContainerIndex \<Rightarrow> writer" where
  "ContainerIndex_file_bytes x =
     wseq (write_u32 0xe)
    (wseq (write_u32 (int (length (containers x))))
    (wseq (write_u32 (flag1 x))
    (wseq (write_utf16_string (package_name x))
    (wseq (FileTime_to_bytes (index_mtime x))
    (wseq (write_u32 (flag2 x))
    (wseq (write_utf16_string (index_uuid x))
    (wseq (write_u64 (unknown x))
          (write_all (map Container_to_bytes (containers x))))))))))"

text \<open>
  The file system: a path is the list of its components, \<open>os.path.join(d, n)\<close> with a
  single relative component \<open>n\<close> appends it, and a path holds a file with its bytes, a
  directory, or nothing. The root \<open>[]\<close> is a directory.
\<close>

type_synonym path = "pystr list"

datatype node = File "byte list" | Dir

type_synonym fs = "path \<rightharpoonup> node"

definition path_join :: "path \<Rightarrow> pystr \<Rightarrow> path" where
  "path_join d n = d @ [n]"

definition is_dir :: "fs \<Rightarrow> path \<Rightarrow> bool" where
  "is_dir t p \<longleftrightarrow> p = [] \<or> t p = Some Dir"

definition path_exists :: "fs \<Rightarrow> path \<Rightarrow> bool" where
  "path_exists t p \<longleftrightarrow> p = [] \<or> t p \<noteq> None"

text \<open>\<open>open(p, "rb").read()\<close>\<close>

definition read_file :: "fs \<Rightarrow> path \<Rightarrow> error + byte list" where
  "read_file t p =
     (if p = [] then Inl IsADirectoryError
      else case t p of None \<Rightarrow> Inl FileNotFoundError
           | Some Dir \<Rightarrow> Inl IsADirectoryError
           | Some (File d) \<Rightarrow> Inr d)"

text \<open>
  A regular file lies on the way to a path: one of its proper prefixes, from the root down
  (\<open>walked\<close> is the prefix walked so far), holds a file.
\<close>

fun file_above :: "fs \<Rightarrow> path \<Rightarrow> path \<Rightarrow> bool" where
  "file_above t walked [] = False"
| "file_above t walked [c] = False"
| "file_above t walked (c # c' # cs) =
     ((case t (walked @ [c]) of Some (File d) \<Rightarrow> True | _ \<Rightarrow> False)
      \<or> file_above t (walked @ [c]) (c' # cs))"

text \<open>
  \<open>open(p, "wb")\<close> followed by writing \<open>d\<close>: IsADirectoryError when \<open>p\<close> is a directory,
  NotADirectoryError when a regular file lies on the way to \<open>p\<close>, FileNotFoundError when
  the directory of \<open>p\<close> does not exist.
\<close>

definition write_file :: "fs \<Rightarrow> path \<Rightarrow> byte list \<Rightarrow> error + fs" where
  "write_file t p d =
     (if is_dir t p then Inl IsADirectoryError
      else if file_above t [] p then Inl NotADirectoryError
      else if \<not> is_dir t (butlast p) then Inl FileNotFoundError
      else Inr (t(p \<mapsto> File d)))"

text \<open>
  The file-system names derived from an identifier, under the names of the local variables
  that hold them: \<open>file_content_path\<close> in \<open>ContainerFileList.from_stream\<close>,
  \<open>content_path\<close> in \<open>ContainerFileList.write_container\<close> and \<open>containers_dir_path\<close> in
  \<open>PalworldImporter._create_container_entry\<close>.
\<close>

definition file_content_path :: "path \<Rightarrow> UUID \<Rightarrow> path" where
  "file_content_path path file_uuid =
     path_join path (str_upper (bytes_hex (UUID_bytes_le file_uuid)))"

definition content_path :: "path \<Rightarrow> UUID \<Rightarrow> path" where
  "content_path path file_uuid =
     path_join path (str_upper (bytes_hex (UUID_bytes_le file_uuid)))"

definition containers_dir_path :: "path \<Rightarrow> UUID \<Rightarrow> path" where
  "containers_dir_path base_xbox_path container_id =
     path_join base_xbox_path (str_upper (bytes_hex (UUID_bytes_le container_id)))"

record ContainerFile =
  file_name :: pystr
  file_uuid :: UUID
  data :: "byte list option"
  source_path :: "path option"

record ContainerFileList =
  fl_seq :: int
  files :: "ContainerFile list"

text \<open>
  The body of the loop of \<open>ContainerFileList.from_stream\<close>: one element of the manifest,
  with its content file read from the directory \<open>path\<close> of the manifest.
\<close>

definition read_file_entry :: "fs \<Rightarrow> path \<Rightarrow> ContainerFile reader" where
  "read_file_entry t path =
     bnd (read_utf16_fixed_string 64) (\<lambda>file_name.
     bnd (stream_read 16) (\<lambda>file_cloud_uuid_bytes.
     bnd (stream_read 16) (\<lambda>b.
     bnd (lift_result (UUID_of_bytes b)) (\<lambda>file_uuid.
       if \<not> path_exists t (file_content_path path file_uuid)
       then raise (NotSupportedError ContentFileMissing)
       else
     bnd (lift_result (read_file t (file_content_path path file_uuid))) (\<lambda>file_data.
       ret \<lparr>file_name = file_name, file_uuid = file_uuid, data = Some file_data,
            source_path = None\<rparr>)))))"

fun read_file_entries :: "fs \<Rightarrow> path \<Rightarrow> nat \<Rightarrow> ContainerFile list reader" where
  "read_file_entries t path 0 = ret []"
| "read_file_entries t path (Suc n) =
     bnd (read_file_entry t path) (\<lambda>f.
     bnd (read_file_entries t path n) (\<lambda>fs. ret (f # fs)))"

text \<open>
  \<open>ContainerFileList.from_stream\<close>. The sequence number \<open>seq\<close> and the directory \<open>path\<close>
  are computed from \<open>stream.name\<close> before the first byte is read; they are arguments here,
  with the file system.
\<close>

definition ContainerFileList_from_stream ::
  "fs \<Rightarrow> path \<Rightarrow> int \<Rightarrow> ContainerFileList reader" where
  "ContainerFileList_from_stream t path seq0 =
     bnd read_u32 (\<lambda>version.
       if version \<noteq> 4
       then raise (NotSupportedError FileListVersion)
       else
     bnd read_u32 (\<lambda>file_count.
     bnd (read_file_entries t path (nat file_count)) (\<lambda>fs.
       ret \<lparr>fl_seq = seq0, files = fs\<rparr>)))"

text \<open>\<open>str(n)\<close> for an integer, as the f-string \<open>container.{self.seq}\<close> formats it.\<close>

fun nat_digits :: "nat \<Rightarrow> pystr" where
  "nat_digits n = (if n < 10 then [48 + n] else nat_digits (n div 10) @ [48 + n mod 10])"

definition int_str :: "int \<Rightarrow> pystr" where
  "int_str i = (if i < 0 then 45 # nat_digits (nat (- i)) else nat_digits (nat i))"

definition ascii :: "string \<Rightarrow> pystr" where
  "ascii s = map of_char s"

definition container_dot :: pystr where
  "container_dot = ascii ''container.''"

text \<open>
  The loop of \<open>write_container\<close>: for each file the manifest bytes of its entry are
  appended to \<open>out\<close>, and its content file is written, streamed from \<open>source_path\<close> when
  that is set (a non-empty path), from \<open>data\<close> when that is not None, and empty otherwise.
\<close>

fun write_entries :: "path \<Rightarrow> ContainerFile list \<Rightarrow> fs \<Rightarrow> byte list \<Rightarrow> error + fs \<times> byte list" where
  "write_entries path [] t out = Inr (t, out)"
| "write_entries path (f # fs) t out =
     (case wseq (write_utf16_fixed_string (file_name f) 64)
            (wseq (Inr (replicate 16 0)) (Inr (UUID_bytes (file_uuid f)))) of
        Inl e \<Rightarrow> Inl e
      | Inr entry \<Rightarrow>
         (let content =
                (case source_path f of
                   Some (c # cs) \<Rightarrow> read_file t (c # cs)
                 | _ \<Rightarrow> (case data f of Some d \<Rightarrow> Inr d | None \<Rightarrow> Inr []))
          in case content of
               Inl e \<Rightarrow> Inl e
             | Inr d \<Rightarrow>
                (case write_file t (content_path path (file_uuid f)) d of
                   Inl e \<Rightarrow> Inl e
                 | Inr t' \<Rightarrow> write_entries path fs t' (out @ entry))))"

text \<open>
  \<open>ContainerFileList.write_container\<close>: the file system after a write that raised is not
  returned.
\<close>

definition write_container :: "ContainerFileList \<Rightarrow> path \<Rightarrow> fs \<Rightarrow> error + fs" where
  "write_container l path t =
     (let container_file_path = path_join path (container_dot @ int_str (fl_seq l))
      in case write_file t container_file_path [] of
           Inl e \<Rightarrow> Inl e
         | Inr t0 \<Rightarrow>
            (case wseq (write_u32 4) (write_u32 (int (length (files l)))) of
               Inl e \<Rightarrow> Inl e
             | Inr header \<Rightarrow>
                (case write_entries path (files l) t0 header of
                   Inl e \<Rightarrow> Inl e
                 | Inr (t1, out) \<Rightarrow> Inr (t1(container_file_path \<mapsto> File out)))))"

text \<open>
  \<open>os.makedirs(p, exist_ok=True)\<close>: the prefixes of \<open>p\<close> become directories from the root
  down (\<open>made\<close> is the prefix made so far). A regular file at \<open>p\<close> itself raises
  FileExistsError, a regular file at a proper prefix NotADirectoryError.
\<close>

fun makedirs_below :: "path \<Rightarrow> path \<Rightarrow> fs \<Rightarrow> error + fs" where
  "makedirs_below made [] t = Inr t"
| "makedirs_below made (c # cs) t =
     (case t (made @ [c]) of
        Some (File d) \<Rightarrow> Inl (if cs = [] then FileExistsError else NotADirectoryError)
      | _ \<Rightarrow> makedirs_below (made @ [c]) cs (t(made @ [c] \<mapsto> Dir)))"

definition makedirs :: "path \<Rightarrow> fs \<Rightarrow> error + fs" where
  "makedirs p t = makedirs_below [] p t"

text \<open>
  \<open>ContainerIndex.write_file\<close>: \<open>containers.index\<close> in the directory is opened for writing
  and receives the bytes; the file system after a write that raised is not returned.
\<close>

definition ContainerIndex_write_file :: "ContainerIndex \<Rightarrow> path \<Rightarrow> fs \<Rightarrow> error + fs" where
  "ContainerIndex_write_file x path t =
     (let target = path_join path (ascii ''containers.index'')
      in case write_file t target [] of
           Inl e \<Rightarrow> Inl e
         | Inr t0 \<Rightarrow>
            (case ContainerIndex_file_bytes x of
               Inl e \<Rightarrow> Inl e
             | Inr b \<Rightarrow> Inr (t0(target \<mapsto> File b))))"

section \<open>importer.py\<close>

text \<open>
  \<open>PalworldImporter._create_container_entry\<close>. The two results of \<open>uuid.uuid4()\<close> are the
  arguments \<open>content_id\<close> and \<open>container_id\<close>. The argument \<open>stat\<close> is what
  \<open>os.path.getmtime\<close> (through the floating-point \<open>FileTime.from_timestamp\<close>) and
  \<open>os.path.getsize\<close> return for the source file, None when they raise.
\<close>

definition create_container_entry ::
  "bool \<Rightarrow> UUID \<Rightarrow> UUID \<Rightarrow> (FileTime \<times> int) option \<Rightarrow> path \<Rightarrow> pystr \<Rightarrow> path \<Rightarrow> fs
   \<Rightarrow> error + Container \<times> fs" where
  "create_container_entry dry_run content_id container_id stat source_file name
       base_xbox_path t =
     (let container_file = \<lparr>file_name = ascii ''Data'', file_uuid = content_id, data = None,
                             source_path = Some source_file\<rparr>;
          file_list = \<lparr>fl_seq = 1, files = [container_file]\<rparr>
      in case stat of
           None \<Rightarrow> Inl FileNotFoundError
         | Some (mt, sz) \<Rightarrow>
            (let dir = containers_dir_path base_xbox_path container_id;
                 entry = \<lparr>container_name = name, cloud_id = [], seq = 1, flag = 5,
                          container_uuid = container_id, mtime = mt, csize = sz\<rparr>
             in if \<not> dry_run then
                  (case makedirs dir t of
                     Inl e \<Rightarrow> Inl e
                   | Inr t1 \<Rightarrow>
                      (case write_container file_list dir t1 of
                         Inl e \<Rightarrow> Inl e
                       | Inr t2 \<Rightarrow> Inr (entry, t2)))
                else Inr (entry, t)))"

text \<open>
  The merge step of \<open>import_save\<close> (the assignments under \<open>if not self.dry_run\<close>): the
  entries whose name is the name of a new container are dropped, the new containers are
  appended, and the modification time is set to \<open>now\<close>, the \<open>FileTime\<close> of the clock.
\<close>

definition merge_containers :: "ContainerIndex \<Rightarrow> Container list \<Rightarrow> FileTime \<Rightarrow> ContainerIndex" where
  "merge_containers container_index new_containers now =
     (let new_container_names = set (map container_name new_containers);
          kept = filter (\<lambda>c. container_name c \<notin> new_container_names)
                   (containers container_index)
      in container_index\<lparr>containers := kept @ new_containers, index_mtime := now\<rparr>)"

text \<open>Step 6 of \<open>import_save\<close>: nothing is merged or written in a dry run.\<close>

definition update_index ::
  "bool \<Rightarrow> ContainerIndex \<Rightarrow> Container list \<Rightarrow> FileTime \<Rightarrow> path \<Rightarrow> fs
   \<Rightarrow> error + ContainerIndex \<times> fs" where
  "update_index dry_run container_index new_containers now container_path t =
     (if \<not> dry_run then
        (let merged = merge_containers container_index new_containers now
         in case ContainerIndex_write_file merged container_path t of
              Inl e \<Rightarrow> Inl e
            | Inr t' \<Rightarrow> Inr (merged, t'))
      else Inr (container_index, t))"

section \<open>Notions used in the statements\<close>

definition names :: "Container list \<Rightarrow> pystr list" where
  "names cs = map container_name cs"

text \<open>Sample entries and indexes for the scenarios.\<close>

definition sample_entry :: "string \<Rightarrow> int \<Rightarrow> Container" where
  "sample_entry n sz = \<lparr>container_name = ascii n, cloud_id = [], seq = 1, flag = 5,
                        container_uuid = 0, mtime = FileTime 0, csize = sz\<rparr>"

definition sample_index :: "Container list \<Rightarrow> ContainerIndex" where
  "sample_index cs = \<lparr>flag1 = 0, package_name = [], index_mtime = FileTime 0, flag2 = 0,
                      index_uuid = [], unknown = 0, containers = cs\<rparr>"

text \<open>
  Strings of the basic multilingual plane without surrogate code points: each character is
  one UTF-16 code unit, and \<open>bmp_bytes\<close> is the encoding.
\<close>

definition bmp :: "pystr \<Rightarrow> bool" where
  "bmp s \<longleftrightarrow> list_all (\<lambda>c. c < 0x10000 \<and> \<not> is_surrogate c) s"

definition bmp_bytes :: "pystr \<Rightarrow> byte list" where
  "bmp_bytes s = concat (map unit_bytes s)"

text \<open>An integer fits \<open>n\<close> bytes; a string fits the length-prefixed wire form.\<close>

definition fits :: "nat \<Rightarrow> int \<Rightarrow> bool" where
  "fits n v \<longleftrightarrow> 0 \<le> v \<and> v < 256 ^ n"

definition wire_str :: "pystr \<Rightarrow> bool" where
  "wire_str s \<longleftrightarrow> bmp s \<and> length s < 2 ^ 32"

definition str_bytes :: "pystr \<Rightarrow> byte list" where
  "str_bytes s = little_bytes 4 (int (length s)) @ bmp_bytes s"

text \<open>The check of \<open>Container.from_stream\<close> on the cloud id and the flag, passed.\<close>

definition flag_cloud_ok :: "Container \<Rightarrow> bool" where
  "flag_cloud_ok c \<longleftrightarrow>
     \<not> ((cloud_id c = [] \<and> flag c AND 4 = 0) \<or> (cloud_id c \<noteq> [] \<and> flag c AND 4 \<noteq> 0))"

definition valid_container :: "Container \<Rightarrow> bool" where
  "valid_container c \<longleftrightarrow>
     wire_str (container_name c) \<and> wire_str (cloud_id c) \<and> fits 1 (seq c) \<and> fits 4 (flag c)
     \<and> flag_cloud_ok c \<and> fits 8 (ft_value (mtime c)) \<and> fits 8 (csize c)"

definition valid_index :: "ContainerIndex \<Rightarrow> bool" where
  "valid_index x \<longleftrightarrow>
     fits 4 (flag1 x) \<and> wire_str (package_name x) \<and> fits 8 (ft_value (index_mtime x))
     \<and> fits 4 (flag2 x) \<and> wire_str (index_uuid x) \<and> fits 8 (unknown x)
     \<and> length (containers x) < 2 ^ 32 \<and> list_all valid_container (containers x)"

definition container_bytes :: "Container \<Rightarrow> byte list" where
  "container_bytes c =
     str_bytes (container_name c) @ str_bytes (container_name c) @ str_bytes (cloud_id c)
     @ little_bytes 1 (seq c) @ little_bytes 4 (flag c) @ UUID_bytes (container_uuid c)
     @ little_bytes 8 (ft_value (mtime c)) @ little_bytes 8 0 @ little_bytes 8 (csize c)"

definition index_header :: "ContainerIndex \<Rightarrow> byte list" where
  "index_header x =
     little_bytes 4 0xe @ little_bytes 4 (int (length (containers x)))
     @ little_bytes 4 (flag1 x) @ str_bytes (package_name x)
     @ little_bytes 8 (ft_value (index_mtime x)) @ little_bytes 4 (flag2 x)
     @ str_bytes (index_uuid x) @ little_bytes 8 (unknown x)"

text \<open>An index with one entry, named by the single character U+1F600.\<close>

definition smiley_index :: ContainerIndex where
  "smiley_index = \<lparr>flag1 = 1, package_name = ascii ''Pal'', index_mtime = FileTime 3, flag2 = 4,
     index_uuid = [], unknown = 0,
     containers = [\<lparr>container_name = [0x1F600], cloud_id = [], seq = 1, flag = 5,
                    container_uuid = 7, mtime = FileTime 9, csize = 10\<rparr>]\<rparr>"

text \<open>
  A stream that decodes to \<open>smiley_index\<close> (the name as a surrogate pair, count 2), and the
  bytes written for \<open>smiley_index\<close> (the same pair, count 1).
\<close>

definition smiley_source :: "byte list" where
  "smiley_source =
     [14, 0, 0, 0, 1, 0, 0, 0, 1, 0, 0, 0, 3, 0, 0, 0, 80, 0, 97, 0, 108, 0,
      3, 0, 0, 0, 0, 0, 0, 0, 4, 0, 0, 0, 0, 0, 0, 0, 0, 0, 0, 0, 0, 0, 0, 0,
      2, 0, 0, 0, 0x3d, 0xd8, 0, 0xde, 2, 0, 0, 0, 0x3d, 0xd8, 0, 0xde, 0, 0, 0, 0, 1,
      5, 0, 0, 0, 0, 0, 0, 0, 0, 0, 0, 0, 0, 0, 0, 0, 0, 0, 0, 7,
      9, 0, 0, 0, 0, 0, 0, 0, 0, 0, 0, 0, 0, 0, 0, 0, 10, 0, 0, 0, 0, 0, 0, 0]"

definition smiley_written :: "byte list" where
  "smiley_written =
     [14, 0, 0, 0, 1, 0, 0, 0, 1, 0, 0, 0, 3, 0, 0, 0, 80, 0, 97, 0, 108, 0,
      3, 0, 0, 0, 0, 0, 0, 0, 4, 0, 0, 0, 0, 0, 0, 0, 0, 0, 0, 0, 0, 0, 0, 0,
      1, 0, 0, 0, 0x3d, 0xd8, 0, 0xde, 1, 0, 0, 0, 0x3d, 0xd8, 0, 0xde, 0, 0, 0, 0, 1,
      5, 0, 0, 0, 0, 0, 0, 0, 0, 0, 0, 0, 0, 0, 0, 0, 0, 0, 0, 7,
      9, 0, 0, 0, 0, 0, 0, 0, 0, 0, 0, 0, 0, 0, 0, 0, 10, 0, 0, 0, 0, 0, 0, 0]"

text \<open>
  An index with one entry that is not cloud-synced as the specification has it: empty cloud
  id and bit 2 of the flag clear. The bytes written for it follow.
\<close>

definition plain_index :: ContainerIndex where
  "plain_index = sample_index [\<lparr>container_name = ascii ''A'', cloud_id = [], seq = 1, flag = 0,
                                container_uuid = 7, mtime = FileTime 9, csize = 10\<rparr>]"

definition plain_written :: "byte list" where
  "plain_written =
     [14, 0, 0, 0, 1, 0, 0, 0, 0, 0, 0, 0, 0, 0, 0, 0, 0, 0, 0, 0, 0, 0, 0, 0,
      0, 0, 0, 0, 0, 0, 0, 0, 0, 0, 0, 0, 0, 0, 0, 0,
      1, 0, 0, 0, 65, 0, 1, 0, 0, 0, 65, 0, 0, 0, 0, 0, 1,
      0, 0, 0, 0, 0, 0, 0, 0, 0, 0, 0, 0, 0, 0, 0, 0, 0, 0, 0, 7,
      9, 0, 0, 0, 0, 0, 0, 0, 0, 0, 0, 0, 0, 0, 0, 0, 10, 0, 0, 0, 0, 0, 0, 0]"

text \<open>
  The hex-directory name as the specification words it, on the 16 raw bytes of an
  identifier: the first three groups of the GUID (4, 2 and 2 bytes) reversed, the last 8
  bytes in order, each byte as two upper-case hexadecimal digits.
\<close>

definition guid_reorder :: "byte list \<Rightarrow> byte list" where
  "guid_reorder b = rev (take 4 b) @ rev (take 2 (drop 4 b)) @ rev (take 2 (drop 6 b)) @ drop 8 b"

definition upper_hex_digit :: "nat \<Rightarrow> nat" where
  "upper_hex_digit d = (if d < 10 then 48 + d else 55 + d)"

definition upper_hex :: "byte list \<Rightarrow> pystr" where
  "upper_hex bs =
     concat (map (\<lambda>b. [upper_hex_digit (unat b div 16), upper_hex_digit (unat b mod 16)]) bs)"

definition hex_dir_name :: "byte list \<Rightarrow> pystr" where
  "hex_dir_name b = upper_hex (guid_reorder b)"

text \<open>The 160 bytes of a manifest element with a basic-plane name of at most 64 characters.\<close>

definition element_bytes :: "pystr \<Rightarrow> UUID \<Rightarrow> byte list" where
  "element_bytes v u =
     (bmp_bytes v @ replicate (2 * (64 - length v)) 0) @ replicate 16 0 @ UUID_bytes u"

section \<open>Readers and writers on well-formed input\<close>

lemma length_little_bytes [simp]: "length (little_bytes n v) = n"
  by (induction n arbitrary: v) simp_all

lemma uint_byte_of_int: "uint (word_of_int v :: byte) = v mod 256"
  by (simp add: uint_word_of_int)

lemma from_little_bytes: "from_bytes_little (little_bytes n v) = v mod 256 ^ n"
proof (induction n arbitrary: v)
  case 0
  show ?case by simp
next
  case (Suc n)
  have "v mod 256 + 256 * (v div 256 mod 256 ^ n) = v mod (256 * 256 ^ n)"
    by (simp add: zmod_zmult2_eq)
  with Suc show ?case
    by (simp add: uint_byte_of_int)
qed

lemma from_bytes_little_bounds: "0 \<le> from_bytes_little bs \<and> from_bytes_little bs < 256 ^ length bs"
proof (induction bs)
  case Nil
  show ?case by simp
next
  case (Cons b bs)
  have "uint b < 256" using uint_bounded [of b] by simp
  moreover have "0 \<le> uint b" by simp
  ultimately show ?case using Cons by simp
qed

lemma little_bytes_from: "little_bytes (length bs) (from_bytes_little bs) = bs"
proof (induction bs)
  case Nil
  show ?case by simp
next
  case (Cons b bs)
  have b: "uint b < 256" "0 \<le> uint b" using uint_bounded [of b] by simp_all
  have "(uint b + 256 * from_bytes_little bs) div 256 = from_bytes_little bs"
    using b by simp
  moreover have "word_of_int (uint b + 256 * from_bytes_little bs) = b"
  proof -
    have "(word_of_int (uint b + 256 * from_bytes_little bs) :: byte) = word_of_int (uint b)"
      unfolding word_of_int_eq_iff take_bit_eq_mod by simp
    then show ?thesis by simp
  qed
  ultimately show ?case using Cons by simp
qed

lemma bnd_ret [simp]: "bnd (ret a) f = f a"
  by (simp add: bnd_def ret_def)

lemma bnd_raise [simp]: "bnd (raise e) f = raise e"
  by (simp add: bnd_def raise_def fun_eq_iff)

lemma stream_read_append: "length xs = n \<Longrightarrow> stream_read n (xs @ rest) = (Inr xs, rest)"
  by (simp add: stream_read_def)

lemma to_bytes_little_ok:
  "0 \<le> v \<Longrightarrow> v < 256 ^ n \<Longrightarrow> to_bytes_little n v = Inr (little_bytes n v)"
  by (simp add: to_bytes_little_def)

lemma read_int_little:
  assumes "0 \<le> v" "v < 256 ^ n" "0 < n"
  shows "bnd (stream_read n) (\<lambda>data. if data = [] then ret 0 else ret (from_bytes_little data))
           (little_bytes n v @ rest) = (Inr v, rest)"
proof -
  have "little_bytes n v \<noteq> []"
    using assms(3) by (cases n) simp_all
  then show ?thesis
    using assms by (simp add: bnd_def stream_read_append from_little_bytes ret_def)
qed

lemma read_u8_little: "0 \<le> v \<Longrightarrow> v < 256 \<Longrightarrow> read_u8 (little_bytes 1 v @ rest) = (Inr v, rest)"
  unfolding read_u8_def by (rule read_int_little) simp_all

lemma read_u32_little:
  "0 \<le> v \<Longrightarrow> v < 2 ^ 32 \<Longrightarrow> read_u32 (little_bytes 4 v @ rest) = (Inr v, rest)"
  unfolding read_u32_def by (rule read_int_little) simp_all

lemma read_u64_little:
  "0 \<le> v \<Longrightarrow> v < 2 ^ 64 \<Longrightarrow> read_u64 (little_bytes 8 v @ rest) = (Inr v, rest)"
  unfolding read_u64_def by (rule read_int_little) simp_all

lemma bmp_Cons: "bmp (c # cs) \<longleftrightarrow> c < 0x10000 \<and> \<not> is_surrogate c \<and> bmp cs"
  by (simp add: bmp_def)

lemma length_bmp_bytes: "length (bmp_bytes s) = 2 * length s"
  by (induction s) (simp_all add: bmp_bytes_def unit_bytes_def)

lemma utf16_le_encode_bmp: "bmp s \<Longrightarrow> utf16_le_encode s = Inr (bmp_bytes s)"
  by (induction s) (simp_all add: bmp_Cons bmp_bytes_def code_units_def)

lemma unat_unit_bytes:
  assumes "c < 0x10000"
  shows "unat (of_nat (c mod 256) :: byte) + 256 * unat (of_nat (c div 256) :: byte) = c"
proof -
  have "c div 256 < 256" using assms by simp
  then have "unat (of_nat (c div 256) :: byte) = c div 256"
    by (simp add: unat_of_nat)
  moreover have "unat (of_nat (c mod 256) :: byte) = c mod 256"
    by (simp add: unat_of_nat)
  ultimately show ?thesis by simp
qed

lemma units_of_bmp_bytes: "list_all (\<lambda>c. c < 0x10000) s \<Longrightarrow> units_of_bytes (bmp_bytes s) = Inr s"
  by (induction s) (simp_all add: bmp_bytes_def unit_bytes_def unat_unit_bytes)

lemma decode_units_bmp: "list_all (\<lambda>c. \<not> is_surrogate c) s \<Longrightarrow> decode_units s = Inr s"
  by (induction s) simp_all

lemma utf16_le_decode_bmp: "bmp s \<Longrightarrow> utf16_le_decode (bmp_bytes s) = Inr s"
proof -
  assume b: "bmp s"
  then have "list_all (\<lambda>c. c < 0x10000) s" "list_all (\<lambda>c. \<not> is_surrogate c) s"
    by (simp_all add: bmp_def list_all_iff)
  then show ?thesis
    by (simp add: utf16_le_decode_def units_of_bmp_bytes decode_units_bmp)
qed

lemma write_utf16_string_bmp:
  assumes "bmp s" "length s < 2 ^ 32"
  shows "write_utf16_string s = Inr (little_bytes 4 (int (length s)) @ bmp_bytes s)"
proof -
  have "int (length s) < 256 ^ 4" using assms(2) by simp
  then show ?thesis
    using assms(1)
    by (simp add: write_utf16_string_def write_u32_def to_bytes_little_ok
          utf16_le_encode_bmp wseq_def)
qed

lemma read_utf16_string_bmp:
  assumes "bmp s" "length s < 2 ^ 32"
  shows "read_utf16_string (little_bytes 4 (int (length s)) @ bmp_bytes s @ rest) = (Inr s, rest)"
proof -
  have len: "read_u32 (little_bytes 4 (int (length s)) @ bmp_bytes s @ rest)
               = (Inr (int (length s)), bmp_bytes s @ rest)"
    using assms(2) by (intro read_u32_little) simp_all
  show ?thesis
  proof (cases "s = []")
    case True
    then show ?thesis
      using len by (simp add: read_utf16_string_def bnd_def ret_def bmp_bytes_def)
  next
    case False
    have rd: "stream_read (nat (int (length s) * 2)) (bmp_bytes s @ rest) = (Inr (bmp_bytes s), rest)"
      by (rule stream_read_append) (simp add: length_bmp_bytes)
    show ?thesis
      using False assms(1)
      by (simp add: read_utf16_string_def bnd_def len rd lift_result_def
            utf16_le_decode_bmp)
  qed
qed

lemma wseq_Inr [simp]: "wseq (Inr a) (Inr b) = Inr (a @ b)"
  by (simp add: wseq_def)

lemma write_str: "wire_str s \<Longrightarrow> write_utf16_string s = Inr (str_bytes s)"
  by (simp add: wire_str_def str_bytes_def write_utf16_string_bmp)

lemma read_str: "wire_str s \<Longrightarrow> read_utf16_string (str_bytes s @ rest) = (Inr s, rest)"
  by (simp add: wire_str_def str_bytes_def read_utf16_string_bmp)

lemma write_int: "fits n v \<Longrightarrow> to_bytes_little n v = Inr (little_bytes n v)"
  by (simp add: fits_def to_bytes_little_ok)

lemma read_u8_fits: "fits (Suc 0) v \<Longrightarrow> read_u8 (word_of_int v # rest) = (Inr v, rest)"
  using read_u8_little [of v rest] by (simp add: fits_def)

lemma read_u32_fits: "fits 4 v \<Longrightarrow> read_u32 (little_bytes 4 v @ rest) = (Inr v, rest)"
  by (simp add: fits_def read_u32_little)

lemma read_u64_fits: "fits 8 v \<Longrightarrow> read_u64 (little_bytes 8 v @ rest) = (Inr v, rest)"
  by (simp add: fits_def read_u64_little)

lemma fits_0 [simp]: "fits n 0"
  by (simp add: fits_def)

lemma length_UUID_bytes [simp]: "length (UUID_bytes u) = 16"
  by (simp add: UUID_bytes_def)

lemma UUID_of_bytes_bytes: "UUID_of_bytes (UUID_bytes u) = Inr u"
proof -
  have "uint u < 256 ^ 16"
    using uint_bounded [of u] by simp
  then have "uint u mod 256 ^ 16 = uint u"
    by simp
  then show ?thesis
    by (simp add: UUID_of_bytes_def UUID_bytes_def from_little_bytes)
qed

lemma UUID_bytes_of_bytes:
  assumes "length b = 16"
  shows "UUID_of_bytes b = Inr (word_of_int (from_bytes_little (rev b)))
         \<and> UUID_bytes (word_of_int (from_bytes_little (rev b))) = b"
proof -
  have "0 \<le> from_bytes_little (rev b)" "from_bytes_little (rev b) < 256 ^ 16"
    using from_bytes_little_bounds [of "rev b"] assms by simp_all
  then have "uint (word_of_int (from_bytes_little (rev b)) :: UUID) = from_bytes_little (rev b)"
    by (simp add: uint_word_of_int take_bit_eq_mod)
  moreover have "little_bytes 16 (from_bytes_little (rev b)) = rev b"
    using little_bytes_from [of "rev b"] assms by simp
  ultimately show ?thesis
    using assms by (simp add: UUID_of_bytes_def UUID_bytes_def)
qed

lemma Container_to_bytes_valid:
  "valid_container c \<Longrightarrow> Container_to_bytes c = Inr (container_bytes c)"
  by (simp add: valid_container_def Container_to_bytes_def container_bytes_def write_str
        write_u8_def write_u32_def write_u64_def FileTime_to_bytes_def write_int)

lemma Container_from_stream_bytes:
  assumes "valid_container c"
  shows "Container_from_stream (container_bytes c @ rest) = (Inr c, rest)"
proof -
  have ok: "\<not> ((cloud_id c = [] \<and> flag c AND 4 = 0) \<or> (cloud_id c \<noteq> [] \<and> flag c AND 4 \<noteq> 0))"
    using assms by (simp add: valid_container_def flag_cloud_ok_def)
  have ft: "FileTime (ft_value (mtime c)) = mtime c"
    by simp
  show ?thesis
    using assms ok
    by (simp add: valid_container_def Container_from_stream_def container_bytes_def
          bnd_def read_str read_u8_fits read_u32_fits read_u64_fits stream_read_append
          lift_result_def UUID_of_bytes_bytes FileTime_from_stream_def ret_def raise_def)
qed

lemma write_all_containers:
  "list_all valid_container cs
   \<Longrightarrow> write_all (map Container_to_bytes cs) = Inr (concat (map container_bytes cs))"
  by (induction cs) (simp_all add: Container_to_bytes_valid)

lemma read_containers_bytes:
  "list_all valid_container cs
   \<Longrightarrow> read_containers (length cs) (concat (map container_bytes cs) @ rest) = (Inr cs, rest)"
  by (induction cs) (simp_all add: ret_def bnd_def Container_from_stream_bytes)

lemma ContainerIndex_file_bytes_valid:
  assumes "valid_index x"
  shows "ContainerIndex_file_bytes x
           = Inr (index_header x @ concat (map container_bytes (containers x)))"
proof -
  have "fits 4 (int (length (containers x)))" "fits 4 0xe"
    using assms by (simp_all add: valid_index_def fits_def)
  then show ?thesis
    using assms
    by (simp add: valid_index_def ContainerIndex_file_bytes_def index_header_def write_str
          write_u32_def write_u64_def FileTime_to_bytes_def write_int write_all_containers)
qed

lemma ContainerIndex_from_stream_bytes:
  assumes "valid_index x"
  shows "ContainerIndex_from_stream (index_header x @ concat (map container_bytes (containers x)) @ rest)
           = (Inr x, rest)"
proof -
  have "fits 4 (int (length (containers x)))" "fits 4 0xe"
    using assms by (simp_all add: valid_index_def fits_def)
  then show ?thesis
    using assms
    by (simp add: valid_index_def ContainerIndex_from_stream_def index_header_def
          bnd_def read_str read_u32_fits read_u64_fits FileTime_from_stream_def ret_def
          read_containers_bytes)
qed

lemma little_bytes_numeral:
  "little_bytes (numeral k) v = word_of_int v # little_bytes (pred_numeral k) (v div 256)"
  by (simp add: numeral_eq_Suc)

lemmas reader_defs = bnd_def ret_def raise_def stream_read_def lift_result_def
  read_u8_def read_u32_def read_u64_def read_utf16_string_def utf16_le_decode_def
  is_surrogate_def FileTime_from_stream_def UUID_of_bytes_def

lemmas writer_defs = wseq_def write_u8_def write_u32_def write_u64_def write_utf16_string_def
  to_bytes_little_def little_bytes_numeral FileTime_to_bytes_def UUID_bytes_def
  code_units_def unit_bytes_def is_surrogate_def ascii_def

section \<open>The merge step\<close>

lemma containers_merge:
  "containers (merge_containers x new now) =
     filter (\<lambda>c. container_name c \<notin> set (names new)) (containers x) @ new"
  by (simp add: merge_containers_def names_def)

lemma ascii_inj: "ascii a = ascii b \<longleftrightarrow> a = b"
  by (simp add: ascii_def inj_map_eq_map inj_on_def)

text \<open>
  C2. The merged container sequence is the existing entries whose names are not among the
  names of the batch, in their original order, followed by the batch in batch order; on the
  index [Save1-Level, Save1-LevelMeta] and the batch [Save1-Level (new), Save1-Players-ABC]
  this is [Save1-LevelMeta, Save1-Level (new), Save1-Players-ABC].
\<close>

theorem merge_keeps_unrelated_then_batch:
  "containers (merge_containers x new now) =
     filter (\<lambda>c. container_name c \<notin> set (names new)) (containers x) @ new
   \<and> containers (merge_containers
        (sample_index [sample_entry ''Save1-Level'' 1, sample_entry ''Save1-LevelMeta'' 2])
        [sample_entry ''Save1-Level'' 3, sample_entry ''Save1-Players-ABC'' 4] now)
     = [sample_entry ''Save1-LevelMeta'' 2, sample_entry ''Save1-Level'' 3, sample_entry ''Save1-Players-ABC'' 4]"
  by (simp add: containers_merge names_def sample_index_def sample_entry_def ascii_inj)

text \<open>
  C3, as stated: after the merge no two entries share a name, for every index and every
  batch with pairwise distinct names. It fails on an index that holds the name A twice and
  a batch that does not name A: both old entries are kept.
\<close>

theorem merge_keeps_old_duplicates:
  "distinct (names [sample_entry ''B'' 3])
   \<and> \<not> distinct (names (containers (merge_containers
          (sample_index [sample_entry ''A'' 1, sample_entry ''A'' 2]) [sample_entry ''B'' 3] (FileTime 0))))"
  by (simp add: containers_merge names_def sample_index_def sample_entry_def ascii_inj)

text \<open>
  C3, amended: for a batch with pairwise distinct names, the merged sequence has no two
  entries sharing a name exactly when the existing entries that the batch does not replace
  have pairwise distinct names; entries whose name is in the batch may repeat in the old
  index, they are all dropped.
\<close>

theorem merge_distinct_names:
  assumes "distinct (names new)"
  shows "distinct (names (containers (merge_containers x new now)))
         \<longleftrightarrow> distinct (names (filter (\<lambda>c. container_name c \<notin> set (names new)) (containers x)))"
proof -
  let ?kept = "filter (\<lambda>c. container_name c \<notin> set (names new)) (containers x)"
  have "set (names ?kept) \<inter> set (names new) = {}"
    by (auto simp: names_def)
  with assms show ?thesis
    by (simp add: containers_merge names_def)
qed

theorem merge_distinct_names_witness:
  "distinct (names [sample_entry ''A'' 3, sample_entry ''B'' 4])
   \<and> distinct (names (containers (merge_containers
        (sample_index [sample_entry ''A'' 1, sample_entry ''A'' 2, sample_entry ''C'' 5])
        [sample_entry ''A'' 3, sample_entry ''B'' 4] (FileTime 7))))"
proof -
  have d: "distinct (names [sample_entry ''A'' 3, sample_entry ''B'' 4])"
    by (simp add: names_def sample_entry_def ascii_inj)
  show ?thesis
    using d merge_distinct_names [OF d,
      of "sample_index [sample_entry ''A'' 1, sample_entry ''A'' 2, sample_entry ''C'' 5]" "FileTime 7"]
    by (simp add: names_def sample_index_def sample_entry_def ascii_inj)
qed

text \<open>
  C9. The merge step changes only the container sequence and the modification time of the
  index: flag1, package_name, flag2, index_uuid and the reserved word are those of the
  input, and the retained entries (name not in the batch) are the first entries of the
  result, each equal to its value before the merge in every field.
\<close>

theorem merge_frame:
  "flag1 (merge_containers x new now) = flag1 x
   \<and> package_name (merge_containers x new now) = package_name x
   \<and> flag2 (merge_containers x new now) = flag2 x
   \<and> index_uuid (merge_containers x new now) = index_uuid x
   \<and> unknown (merge_containers x new now) = unknown x
   \<and> index_mtime (merge_containers x new now) = now
   \<and> (\<forall>c \<in> set (containers x). container_name c \<notin> set (names new)
        \<longrightarrow> c \<in> set (containers (merge_containers x new now)))
   \<and> take (length (filter (\<lambda>c. container_name c \<notin> set (names new)) (containers x)))
        (containers (merge_containers x new now))
      = filter (\<lambda>c. container_name c \<notin> set (names new)) (containers x)"
  by (simp add: merge_containers_def names_def)

theorem merge_frame_witness:
  "sample_entry ''LevelMeta'' 2 \<in> set (containers (merge_containers
      (sample_index [sample_entry ''Level'' 1, sample_entry ''LevelMeta'' 2]) [sample_entry ''Level'' 3] (FileTime 9)))
   \<and> index_mtime (merge_containers
      (sample_index [sample_entry ''Level'' 1, sample_entry ''LevelMeta'' 2]) [sample_entry ''Level'' 3] (FileTime 9))
     = FileTime 9"
proof -
  have m: "sample_entry ''LevelMeta'' 2 \<in> set (containers (sample_index [sample_entry ''Level'' 1, sample_entry ''LevelMeta'' 2]))"
    by (simp add: sample_index_def)
  have n: "container_name (sample_entry ''LevelMeta'' 2) \<notin> set (names [sample_entry ''Level'' 3])"
    by (simp add: names_def sample_entry_def ascii_inj)
  show ?thesis
    using m n merge_frame [of "sample_index [sample_entry ''Level'' 1, sample_entry ''LevelMeta'' 2]"
      "[sample_entry ''Level'' 3]" "FileTime 9"]
    by blast
qed

section \<open>Round trip of the index\<close>

text \<open>
  C4, as stated: decoding the bytes written for a valid index gives the index back. It
  fails in three ways. An entry with an empty cloud id and bit 2 of the flag clear, valid as
  the specification states the invariant, is written and then rejected by the decoder's
  check. An index whose entry passes the decoder's checks, and which is itself decoded from
  a stream, is not read back when a name lies outside the basic plane: the count written
  is \<open>len(value) = 1\<close>, the encoding has two code units, and the decoder reads one unit, a
  lone surrogate. And a field that does not fit its width, \<open>flag1 = 2 ^ 32\<close>, is not written.
\<close>

theorem index_round_trip_fails:
  "ContainerIndex_file_bytes plain_index = Inr plain_written
   \<and> fst (ContainerIndex_from_stream plain_written) = Inl (NotSupportedError FlagCloudMismatch)
   \<and> ContainerIndex_from_stream smiley_source = (Inr smiley_index, [])
   \<and> list_all flag_cloud_ok (containers smiley_index)
   \<and> ContainerIndex_file_bytes smiley_index = Inr smiley_written
   \<and> fst (ContainerIndex_from_stream smiley_written) = Inl UnicodeDecodeError
   \<and> ContainerIndex_file_bytes (smiley_index\<lparr>flag1 := 2 ^ 32, containers := []\<rparr>)
     = Inl OverflowError"
proof (intro conjI)
  show "ContainerIndex_file_bytes plain_index = Inr plain_written"
    by (simp add: plain_index_def sample_index_def plain_written_def
          ContainerIndex_file_bytes_def Container_to_bytes_def writer_defs)
  show "fst (ContainerIndex_from_stream plain_written)
          = Inl (NotSupportedError FlagCloudMismatch)"
    by (simp add: plain_written_def ContainerIndex_from_stream_def Container_from_stream_def
          reader_defs)
  show "ContainerIndex_from_stream smiley_source = (Inr smiley_index, [])"
    by (simp add: smiley_source_def ContainerIndex_from_stream_def Container_from_stream_def
          reader_defs smiley_index_def ascii_def)
  show "list_all flag_cloud_ok (containers smiley_index)"
    by (simp add: smiley_index_def flag_cloud_ok_def)
  show "ContainerIndex_file_bytes smiley_index = Inr smiley_written"
    by (simp add: smiley_index_def smiley_written_def ContainerIndex_file_bytes_def
          Container_to_bytes_def writer_defs)
  show "fst (ContainerIndex_from_stream smiley_written) = Inl UnicodeDecodeError"
    by (simp add: smiley_written_def ContainerIndex_from_stream_def Container_from_stream_def
          reader_defs)
  show "ContainerIndex_file_bytes (smiley_index\<lparr>flag1 := 2 ^ 32, containers := []\<rparr>)
          = Inl OverflowError"
    by (simp add: smiley_index_def ContainerIndex_file_bytes_def writer_defs)
qed

text \<open>
  C4, amended: for every index whose integer fields fit their widths, whose strings are
  made of basic-plane characters other than surrogates and are shorter than \<open>2 ^ 32\<close>, that
  has fewer than \<open>2 ^ 32\<close> entries, and whose entries pass the decoder's check on flag and
  cloud id, the index is written, decoding the bytes written gives it back in every field
  and consumes all of them, and the count written is the length of the container sequence.
\<close>

theorem index_round_trip:
  assumes "valid_index x"
  shows "\<exists>b. ContainerIndex_file_bytes x = Inr b
             \<and> ContainerIndex_from_stream b = (Inr x, [])
             \<and> take 4 (drop 4 b) = little_bytes 4 (int (length (containers x)))"
proof -
  let ?b = "index_header x @ concat (map container_bytes (containers x))"
  have "ContainerIndex_file_bytes x = Inr ?b"
    using assms by (rule ContainerIndex_file_bytes_valid)
  moreover have "ContainerIndex_from_stream ?b = (Inr x, [])"
    using ContainerIndex_from_stream_bytes [OF assms, of "[]"] by simp
  moreover have "take 4 (drop 4 ?b) = little_bytes 4 (int (length (containers x)))"
    by (simp add: index_header_def)
  ultimately show ?thesis
    by blast
qed

theorem index_round_trip_witness:
  "valid_index (sample_index [sample_entry ''Save1-Level'' 7, sample_entry ''Save1-LevelMeta'' 9])
   \<and> (\<exists>b. ContainerIndex_file_bytes
            (sample_index [sample_entry ''Save1-Level'' 7, sample_entry ''Save1-LevelMeta'' 9]) = Inr b
        \<and> ContainerIndex_from_stream b
          = (Inr (sample_index [sample_entry ''Save1-Level'' 7, sample_entry ''Save1-LevelMeta'' 9]), [])
        \<and> take 4 (drop 4 b) = [2, 0, 0, 0])"
proof -
  have v: "valid_index
      (sample_index [sample_entry ''Save1-Level'' 7, sample_entry ''Save1-LevelMeta'' 9])"
    by (simp add: valid_index_def sample_index_def sample_entry_def valid_container_def
          wire_str_def bmp_def fits_def flag_cloud_ok_def ascii_def is_surrogate_def)
  have "little_bytes 4 (int (length (containers
      (sample_index [sample_entry ''Save1-Level'' 7, sample_entry ''Save1-LevelMeta'' 9]))))
      = [2, 0, 0, 0]"
    by (simp add: sample_index_def little_bytes_numeral)
  then show ?thesis
    using v index_round_trip [OF v] by simp
qed

section \<open>The check on flag and cloud id\<close>

lemma read_u8_no_error [simp]: "read_u8 s \<noteq> (Inl e, s')"
  by (simp add: read_u8_def bnd_def stream_read_def ret_def)

lemma read_u32_no_error [simp]: "read_u32 s \<noteq> (Inl e, s')"
  by (simp add: read_u32_def bnd_def stream_read_def ret_def)

lemma read_u64_no_error [simp]: "read_u64 s \<noteq> (Inl e, s')"
  by (simp add: read_u64_def bnd_def stream_read_def ret_def)

text \<open>
  C1, as stated: decoding raises the mismatch error exactly when bit 2 of the flag and the
  presence of a cloud id disagree. The decoder does the opposite: a record with bit 2 set
  (flag 5) and an empty cloud id is decoded, and a record with bit 2 clear (flag 1) and an
  empty cloud id is rejected.
\<close>

theorem flag_check_accepts_set_bit_with_empty_cloud_id:
  "Container_from_stream
     [1, 0, 0, 0, 65, 0, 1, 0, 0, 0, 65, 0, 0, 0, 0, 0, 1, 5, 0, 0, 0,
      0, 0, 0, 0, 0, 0, 0, 0, 0, 0, 0, 0, 0, 0, 0, 7,
      9, 0, 0, 0, 0, 0, 0, 0, 0, 0, 0, 0, 0, 0, 0, 0, 10, 0, 0, 0, 0, 0, 0, 0]
     = (Inr \<lparr>container_name = [65], cloud_id = [], seq = 1, flag = 5, container_uuid = 7,
              mtime = FileTime 9, csize = 10\<rparr>, [])
   \<and> (5 :: int) AND 4 \<noteq> 0
   \<and> Container_from_stream
     [1, 0, 0, 0, 65, 0, 1, 0, 0, 0, 65, 0, 0, 0, 0, 0, 1, 1, 0, 0, 0,
      0, 0, 0, 0, 0, 0, 0, 0, 0, 0, 0, 0, 0, 0, 0, 7,
      9, 0, 0, 0, 0, 0, 0, 0, 0, 0, 0, 0, 0, 0, 0, 0, 10, 0, 0, 0, 0, 0, 0, 0]
     = (Inl (NotSupportedError FlagCloudMismatch),
      [0, 0, 0, 0, 0, 0, 0, 0, 0, 0, 0, 0, 0, 0, 0, 7,
      9, 0, 0, 0, 0, 0, 0, 0, 0, 0, 0, 0, 0, 0, 0, 0, 10, 0, 0, 0, 0, 0, 0, 0])
   \<and> (1 :: int) AND 4 = 0"
  by (simp add: Container_from_stream_def reader_defs)

text \<open>
  C1, amended: on every stream from which the two names (equal), the cloud id, the sequence
  number and the flag are read, \<open>Container.from_stream\<close> raises the mismatch error exactly
  when bit 2 of the flag and the presence of a cloud id agree, that is, bit 2 set with a
  non-empty cloud id or bit 2 clear with an empty one; it raises it right after the flag is
  read. A record with bit 2 set and an empty cloud id, or bit 2 clear and a non-empty cloud
  id, passes the check.
\<close>

theorem flag_check_rejects_agreement:
  assumes "read_utf16_string s = (Inr name, s1)"
      and "read_utf16_string s1 = (Inr name, s2)"
      and "read_utf16_string s2 = (Inr cloud, s3)"
      and "read_u8 s3 = (Inr sq, s4)"
      and "read_u32 s4 = (Inr fl, s5)"
  shows "((fst (Container_from_stream s) = Inl (NotSupportedError FlagCloudMismatch))
            \<longleftrightarrow> ((fl AND 4 \<noteq> 0) \<longleftrightarrow> (cloud \<noteq> [])))
         \<and> (((fl AND 4 \<noteq> 0) \<longleftrightarrow> (cloud \<noteq> []))
            \<longrightarrow> Container_from_stream s = (Inl (NotSupportedError FlagCloudMismatch), s5))"
  using assms
  by (auto simp: Container_from_stream_def bnd_def raise_def ret_def lift_result_def
        stream_read_def UUID_of_bytes_def FileTime_from_stream_def
        split: prod.splits sum.splits if_splits)

theorem flag_check_rejects_agreement_witness:
  "read_utf16_string [1, 0, 0, 0, 65, 0, 1, 0, 0, 0, 65, 0, 1, 0, 0, 0, 66, 0, 1, 4, 0, 0, 0, 9]
     = (Inr [65], [1, 0, 0, 0, 65, 0, 1, 0, 0, 0, 66, 0, 1, 4, 0, 0, 0, 9])
   \<and> read_u32 [4, 0, 0, 0, 9] = (Inr 4, [9])
   \<and> Container_from_stream
       [1, 0, 0, 0, 65, 0, 1, 0, 0, 0, 65, 0, 1, 0, 0, 0, 66, 0, 1, 4, 0, 0, 0, 9]
     = (Inl (NotSupportedError FlagCloudMismatch), [9])"
proof -
  have r1: "read_utf16_string
      [1, 0, 0, 0, 65, 0, 1, 0, 0, 0, 65, 0, 1, 0, 0, 0, 66, 0, 1, 4, 0, 0, 0, 9]
     = (Inr [65], [1, 0, 0, 0, 65, 0, 1, 0, 0, 0, 66, 0, 1, 4, 0, 0, 0, 9])"
    by (simp add: reader_defs)
  have r2: "read_utf16_string [1, 0, 0, 0, 65, 0, 1, 0, 0, 0, 66, 0, 1, 4, 0, 0, 0, 9]
     = (Inr [65], [1, 0, 0, 0, 66, 0, 1, 4, 0, 0, 0, 9])"
    by (simp add: reader_defs)
  have r3: "read_utf16_string [1, 0, 0, 0, 66, 0, 1, 4, 0, 0, 0, 9]
     = (Inr [66], [1, 4, 0, 0, 0, 9])"
    by (simp add: reader_defs)
  have r4: "read_u8 [1, 4, 0, 0, 0, 9] = (Inr 1, [4, 0, 0, 0, 9])"
    by (simp add: reader_defs)
  have r5: "read_u32 [4, 0, 0, 0, 9] = (Inr 4, [9])"
    by (simp add: reader_defs)
  show ?thesis
    using r1 r5 flag_check_rejects_agreement [OF r1 r2 r3 r4 r5] by simp
qed

section \<open>Strings on short streams\<close>

lemma units_of_bytes_length: "units_of_bytes bs = Inr us \<Longrightarrow> length bs = 2 * length us"
  by (induction bs arbitrary: us rule: units_of_bytes.induct) (auto split: sum.splits)

lemma decode_units_length: "decode_units us = Inr t \<Longrightarrow> length t \<le> length us"
proof (induction us arbitrary: t rule: decode_units.induct)
  case 1
  then show ?case by simp
next
  case (2 u us)
  show ?case
  proof (cases "is_surrogate u")
    case False
    with 2 show ?thesis
      by (auto split: sum.splits)
  next
    case True
    with 2 show ?thesis
      by (fastforce split: sum.splits list.splits if_splits)
  qed
qed

lemma utf16_le_decode_length: "utf16_le_decode bs = Inr t \<Longrightarrow> 2 * length t \<le> length bs"
  by (auto simp: utf16_le_decode_def split: sum.splits
        dest!: units_of_bytes_length decode_units_length)

lemma utf16_le_decode_odd: "odd (length bs) \<Longrightarrow> utf16_le_decode bs = Inl UnicodeDecodeError"
proof (induction bs rule: units_of_bytes.induct)
  case 1
  then show ?case by simp
next
  case (2 b)
  show ?case by (simp add: utf16_le_decode_def)
next
  case (3 lo hi bs)
  then show ?case
    by (auto simp: utf16_le_decode_def split: sum.splits dest: units_of_bytes_length)
qed

text \<open>
  C7, as stated: \<open>read_utf16_string\<close> fails on a stream that holds fewer bytes than the
  prefix and \<open>count * 2\<close> bytes. It does not: with a count of 2 and one character left it
  returns that character, and with a count of 2 and nothing left the empty string.
\<close>

theorem short_read_returns_shorter_string:
  "read_utf16_string [2, 0, 0, 0, 0x41, 0] = (Inr [0x41], [])
   \<and> read_utf16_string [2, 0, 0, 0] = (Inr [], [])"
  by (simp add: reader_defs)

text \<open>
  C7, amended: when the stream holds fewer bytes after the count than \<open>count * 2\<close>,
  \<open>read_utf16_string\<close> reads what is left and returns its decoding: a string shorter
  than the count when the bytes left are well-formed UTF-16 (every encoding of a
  basic-plane string is), UnicodeDecodeError when they are not, as when their number is
  odd. On an empty stream it returns the empty string, and the integer reads return zero.
\<close>

theorem string_read_on_short_stream:
  assumes "read_u32 s = (Inr n, s1)" and "int (length s1) < 2 * n"
  shows "read_utf16_string s = (utf16_le_decode s1, [])
         \<and> (\<forall>t. utf16_le_decode s1 = Inr t \<longrightarrow> int (length t) < n)
         \<and> (\<forall>t. bmp t \<and> s1 = bmp_bytes t \<longrightarrow> read_utf16_string s = (Inr t, []))
         \<and> (odd (length s1) \<longrightarrow> fst (read_utf16_string s) = Inl UnicodeDecodeError)
         \<and> read_utf16_string [] = (Inr [], [])
         \<and> read_u8 [] = (Inr 0, []) \<and> read_u32 [] = (Inr 0, []) \<and> read_u64 [] = (Inr 0, [])"
proof -
  have n: "n \<noteq> 0" using assms(2) by auto
  have "length s1 \<le> nat (n * 2)" using assms(2) by simp
  then have rd: "read_utf16_string s = (utf16_le_decode s1, [])"
    using assms(1) n by (simp add: read_utf16_string_def bnd_def stream_read_def lift_result_def)
  have short: "int (length t) < n" if "utf16_le_decode s1 = Inr t" for t
    using utf16_le_decode_length [OF that] assms(2) by simp
  have eos: "read_utf16_string [] = (Inr [], [])"
    "read_u8 [] = (Inr 0, [])" "read_u32 [] = (Inr 0, [])" "read_u64 [] = (Inr 0, [])"
    by (simp_all add: reader_defs)
  show ?thesis
    using rd short eos by (auto simp: utf16_le_decode_bmp utf16_le_decode_odd)
qed

theorem string_read_on_short_stream_witness:
  "read_u32 [3, 0, 0, 0, 0x41, 0, 0x42, 0] = (Inr 3, [0x41, 0, 0x42, 0])
   \<and> int (length [0x41, 0, 0x42, 0 :: byte]) < 2 * 3
   \<and> read_utf16_string [3, 0, 0, 0, 0x41, 0, 0x42, 0] = (Inr [0x41, 0x42], [])"
proof -
  have r: "read_u32 [3, 0, 0, 0, 0x41, 0, 0x42, 0] = (Inr 3, [0x41, 0, 0x42, 0])"
    by (simp add: reader_defs)
  have l: "int (length [0x41, 0, 0x42, 0 :: byte]) < 2 * 3"
    by simp
  have d: "utf16_le_decode [0x41, 0, 0x42, 0] = Inr [0x41, 0x42]"
    by (simp add: reader_defs)
  show ?thesis
    using r l d string_read_on_short_stream [OF r l] by simp
qed

section \<open>Fixed-width strings\<close>

lemma bmp_append: "bmp (a @ b) \<longleftrightarrow> bmp a \<and> bmp b"
  by (simp add: bmp_def)

lemma bmp_bytes_append: "bmp_bytes (a @ b) = bmp_bytes a @ bmp_bytes b"
  by (simp add: bmp_bytes_def)

lemma bmp_replicate_0: "bmp (replicate k 0)"
  by (simp add: bmp_def list_all_iff is_surrogate_def)

lemma bmp_bytes_replicate_0: "bmp_bytes (replicate k 0) = replicate (2 * k) 0"
  by (induction k) (simp_all add: bmp_bytes_def unit_bytes_def)

lemma rstrip_nul_padding: "rstrip_nul (v @ replicate k 0) = rstrip_nul v"
proof -
  have "dropWhile (\<lambda>c. c = 0) (replicate k (0::nat) @ xs) = dropWhile (\<lambda>c. c = 0) xs" for xs
    by (induction k) simp_all
  then show ?thesis
    by (simp add: rstrip_nul_def)
qed

lemma rstrip_nul_strips:
  "\<exists>k. v = rstrip_nul v @ replicate k 0 \<and> (rstrip_nul v = [] \<or> last (rstrip_nul v) \<noteq> 0)"
proof -
  let ?P = "\<lambda>c::nat. c = 0"
  have tw: "takeWhile ?P xs = replicate (length (takeWhile ?P xs)) 0" for xs
    by (induction xs) simp_all
  have "rev v = takeWhile ?P (rev v) @ dropWhile ?P (rev v)"
    by simp
  then have "v = rev (dropWhile ?P (rev v)) @ rev (takeWhile ?P (rev v))"
    by (metis rev_append rev_rev_ident)
  moreover have "rev (takeWhile ?P (rev v)) = replicate (length (takeWhile ?P (rev v))) 0"
    using tw [of "rev v"] by (metis rev_replicate)
  ultimately have split: "v = rstrip_nul v @ replicate (length (takeWhile ?P (rev v))) 0"
    by (simp add: rstrip_nul_def)
  have "rstrip_nul v = [] \<or> last (rstrip_nul v) \<noteq> 0"
  proof (cases "dropWhile ?P (rev v)")
    case Nil
    then show ?thesis by (simp add: rstrip_nul_def)
  next
    case (Cons x xs)
    then have "\<not> ?P x"
      using hd_dropWhile [of ?P "rev v"] by auto
    with Cons show ?thesis
      by (simp add: rstrip_nul_def)
  qed
  with split show ?thesis
    by blast
qed

lemma write_fixed_any:
  assumes "bmp v"
  shows "write_utf16_fixed_string v (int N)
           = Inr (bmp_bytes v @ replicate (2 * (N - length v)) 0)"
proof (cases "length v < N")
  case True
  then have "nat ((int N - int (length v)) * 2) = 2 * (N - length v)"
    by (simp add: nat_mult_distrib of_nat_diff)
  with True assms show ?thesis
    by (simp add: write_utf16_fixed_string_def utf16_le_encode_bmp Let_def)
next
  case False
  then have "N - length v = 0" by simp
  with False assms show ?thesis
    by (simp add: write_utf16_fixed_string_def utf16_le_encode_bmp Let_def)
qed

lemma write_fixed_padded:
  assumes "bmp v" and "length v \<le> N"
  shows "write_utf16_fixed_string v (int N)
           = Inr (bmp_bytes v @ replicate (2 * (N - length v)) 0)"
  using assms(1) by (rule write_fixed_any)

lemma read_fixed_any:
  "read_utf16_fixed_string N s
     = (case utf16_le_decode (take (N * 2) s) of
          Inl e \<Rightarrow> Inl e
        | Inr t \<Rightarrow> Inr (rstrip_nul t),
        drop (N * 2) s)"
  by (simp add: read_utf16_fixed_string_def bnd_def stream_read_def lift_result_def ret_def
        split: sum.splits)

lemma decode_padded:
  assumes "bmp v"
  shows "utf16_le_decode (bmp_bytes v @ replicate (2 * k) 0) = Inr (v @ replicate k 0)"
proof -
  have "bmp_bytes v @ replicate (2 * k) 0 = bmp_bytes (v @ replicate k 0)"
    by (simp add: bmp_bytes_append bmp_bytes_replicate_0)
  moreover have "bmp (v @ replicate k 0)"
    using assms by (simp add: bmp_append bmp_replicate_0)
  ultimately show ?thesis
    by (simp add: utf16_le_decode_bmp)
qed

lemma read_fixed_padded:
  assumes "bmp v" and "length v \<le> N"
  shows "read_utf16_fixed_string N (bmp_bytes v @ replicate (2 * (N - length v)) 0 @ rest)
           = (Inr (rstrip_nul v), rest)"
proof -
  let ?pad = "replicate (2 * (N - length v)) (0::byte)"
  have "length (bmp_bytes v @ ?pad) = N * 2"
    using assms(2) by (simp add: length_bmp_bytes)
  then have "stream_read (N * 2) ((bmp_bytes v @ ?pad) @ rest) = (Inr (bmp_bytes v @ ?pad), rest)"
    by (intro stream_read_append) simp
  then show ?thesis
    using decode_padded [OF assms(1), of "N - length v"]
    by (simp add: read_utf16_fixed_string_def bnd_def lift_result_def ret_def rstrip_nul_padding)
qed

text \<open>
  C6, as stated: writing a string at width N emits exactly N * 2 bytes, truncating a longer
  string, and reading consumes exactly N * 2 bytes. The writer does not truncate: three
  characters at width 2 are six bytes. The reader consumes what a shorter stream holds.
\<close>

theorem fixed_string_is_not_truncated:
  "write_utf16_fixed_string (ascii ''ABC'') 2 = Inr [0x41, 0, 0x42, 0, 0x43, 0]
   \<and> read_utf16_fixed_string 2 [0x41, 0] = (Inr [0x41], [])"
  by (simp add: write_utf16_fixed_string_def read_utf16_fixed_string_def rstrip_nul_def
        writer_defs reader_defs)

text \<open>
  C6, amended: for every string of basic-plane characters and every width N, writing the
  string at width N emits its encoding followed by N - len null characters when it has at
  most N characters, exactly N * 2 bytes, and its whole encoding, len * 2 bytes without
  truncation or padding, when it is longer. Reading at width N takes the next N * 2 bytes
  of the stream, exactly N * 2 when the stream holds as many and otherwise all that is
  left, and returns their UTF-16 decoding with every trailing null character stripped, or
  the decode error; reading what was written for a string of at most N characters returns
  the string stripped.
\<close>

theorem fixed_string_width:
  assumes "bmp v"
  shows "write_utf16_fixed_string v (int N)
           = Inr (bmp_bytes v @ replicate (2 * (N - length v)) 0)
         \<and> (length v \<le> N
              \<longrightarrow> length (bmp_bytes v @ replicate (2 * (N - length v)) (0::byte)) = N * 2)
         \<and> (N < length v
              \<longrightarrow> write_utf16_fixed_string v (int N) = Inr (bmp_bytes v)
                  \<and> length (bmp_bytes v) = length v * 2)
         \<and> (length v \<le> N
              \<longrightarrow> read_utf16_fixed_string N
                    (bmp_bytes v @ replicate (2 * (N - length v)) 0 @ rest)
                  = (Inr (rstrip_nul v), rest))
         \<and> (\<forall>s. read_utf16_fixed_string N s
                  = (case utf16_le_decode (take (N * 2) s) of
                       Inl e \<Rightarrow> Inl e
                     | Inr t \<Rightarrow> Inr (rstrip_nul t),
                     drop (N * 2) s))
         \<and> (\<forall>s. N * 2 \<le> length s
                  \<longrightarrow> length (snd (read_utf16_fixed_string N s)) + N * 2 = length s)
         \<and> (\<forall>t. \<exists>k. t = rstrip_nul t @ replicate k 0
                     \<and> (rstrip_nul t = [] \<or> last (rstrip_nul t) \<noteq> 0))"
proof -
  have w: "write_utf16_fixed_string v (int N)
             = Inr (bmp_bytes v @ replicate (2 * (N - length v)) 0)"
    using assms by (rule write_fixed_any)
  have len: "length (bmp_bytes v @ replicate (2 * (N - length v)) (0::byte)) = N * 2"
    if "length v \<le> N"
    using that by (simp add: length_bmp_bytes)
  have long: "write_utf16_fixed_string v (int N) = Inr (bmp_bytes v)
                \<and> length (bmp_bytes v) = length v * 2"
    if "N < length v"
    using that w by (simp add: length_bmp_bytes)
  have again: "read_utf16_fixed_string N
                (bmp_bytes v @ replicate (2 * (N - length v)) 0 @ rest)
              = (Inr (rstrip_nul v), rest)"
    if "length v \<le> N"
    using assms that by (rule read_fixed_padded)
  have r: "read_utf16_fixed_string N s
             = (case utf16_le_decode (take (N * 2) s) of
                  Inl e \<Rightarrow> Inl e
                | Inr t \<Rightarrow> Inr (rstrip_nul t),
                drop (N * 2) s)" for s
    by (rule read_fixed_any)
  have c: "length (snd (read_utf16_fixed_string N s)) + N * 2 = length s"
    if "N * 2 \<le> length s" for s
    using that by (simp add: read_fixed_any)
  show ?thesis
    using w len long again r c rstrip_nul_strips by blast
qed

theorem fixed_string_width_witness:
  "bmp (ascii ''Data'') \<and> length (ascii ''Data'') \<le> 64
   \<and> write_utf16_fixed_string (ascii ''Data'') 64
     = Inr (bmp_bytes (ascii ''Data'') @ replicate 120 0)
   \<and> read_utf16_fixed_string 64 (bmp_bytes (ascii ''Data'') @ replicate 120 0 @ [])
     = (Inr (ascii ''Data''), [])
   \<and> bmp (ascii ''ABC'') \<and> 2 < length (ascii ''ABC'')
   \<and> write_utf16_fixed_string (ascii ''ABC'') 2 = Inr (bmp_bytes (ascii ''ABC''))
   \<and> 2 * 2 \<le> length [0x41, 0, 0, 0, 9 :: byte]
   \<and> read_utf16_fixed_string 2 [0x41, 0, 0, 0, 9] = (Inr [0x41], [9])"
proof -
  have b: "bmp (ascii ''Data'')"
    by (simp add: bmp_def ascii_def is_surrogate_def)
  have l: "length (ascii ''Data'') \<le> 64"
    by (simp add: ascii_def)
  have s: "rstrip_nul (ascii ''Data'') = ascii ''Data''"
    by (simp add: rstrip_nul_def ascii_def)
  have b': "bmp (ascii ''ABC'')"
    by (simp add: bmp_def ascii_def is_surrogate_def)
  have l': "2 < length (ascii ''ABC'')"
    by (simp add: ascii_def)
  have d: "utf16_le_decode (take (2 * 2) [0x41, 0, 0, 0, 9]) = Inr [0x41, 0]"
    by (simp add: reader_defs)
  have s': "rstrip_nul [0x41, 0] = [0x41]"
    by (simp add: rstrip_nul_def)
  note data = fixed_string_width [OF b, of 64 "[]"]
  note abc = fixed_string_width [OF b', of 2 "[]"]
  have w: "write_utf16_fixed_string (ascii ''Data'') (int 64)
      = Inr (bmp_bytes (ascii ''Data'') @ replicate (2 * (64 - length (ascii ''Data''))) 0)"
    using data by blast
  have r: "read_utf16_fixed_string 64
      (bmp_bytes (ascii ''Data'') @ replicate (2 * (64 - length (ascii ''Data''))) 0 @ [])
      = (Inr (rstrip_nul (ascii ''Data'')), [])"
    using data l by blast
  have w': "write_utf16_fixed_string (ascii ''ABC'') (int 2) = Inr (bmp_bytes (ascii ''ABC''))"
    using abc l' by blast
  have "read_utf16_fixed_string 2 [0x41, 0, 0, 0, 9]
      = (case utf16_le_decode (take (2 * 2) [0x41, 0, 0, 0, 9]) of
           Inl e \<Rightarrow> Inl e
         | Inr t \<Rightarrow> Inr (rstrip_nul t),
         drop (2 * 2) [0x41, 0, 0, 0, 9])"
    using abc by blast
  then have r': "read_utf16_fixed_string 2 [0x41, 0, 0, 0, 9] = (Inr [0x41], [9])"
    using d s' by simp
  have n: "2 * (64 - length (ascii ''Data'')) = 120"
    by (simp add: ascii_def)
  show ?thesis
    using b l b' l' w r w' r' s n by simp
qed

section \<open>The hex-directory name\<close>

lemma sixteen_bytes:
  assumes "length (b :: byte list) = 16"
  obtains x0 x1 x2 x3 x4 x5 x6 x7 x8 x9 xa xb xc xd xe xf
  where "b = [x0, x1, x2, x3, x4, x5, x6, x7, x8, x9, xa, xb, xc, xd, xe, xf]"
  using assms by (auto simp: numeral_eq_Suc length_Suc_conv)

lemma guid_reorder_involution:
  assumes "length b = 16"
  shows "guid_reorder (guid_reorder b) = b"
proof -
  from assms obtain x0 x1 x2 x3 x4 x5 x6 x7 x8 x9 xa xb xc xd xe xf
    where "b = [x0, x1, x2, x3, x4, x5, x6, x7, x8, x9, xa, xb, xc, xd, xe, xf]"
    by (rule sixteen_bytes)
  then show ?thesis
    by (simp add: guid_reorder_def)
qed

lemma length_guid_reorder: "length (guid_reorder b) = length b"
  by (simp add: guid_reorder_def)

lemma upper_of_hex_digit:
  "d < 16 \<Longrightarrow> (if 97 \<le> hex_digit d \<and> hex_digit d \<le> 122 then hex_digit d - 32 else hex_digit d)
     = upper_hex_digit d"
  by (simp add: hex_digit_def upper_hex_digit_def)

lemma str_upper_bytes_hex: "str_upper (bytes_hex bs) = upper_hex bs"
proof (induction bs)
  case Nil
  show ?case by (simp add: str_upper_def bytes_hex_def upper_hex_def)
next
  case (Cons b bs)
  have "unat b < 256" using unsigned_less [of b, where ?'a = nat] by simp
  then have "unat b div 16 < 16" "unat b mod 16 < 16" by simp_all
  then show ?case
    using Cons upper_of_hex_digit [of "unat b div 16"] upper_of_hex_digit [of "unat b mod 16"]
    by (simp add: str_upper_def bytes_hex_def upper_hex_def)
qed

lemma upper_hex_digit_inj:
  "d < 16 \<Longrightarrow> e < 16 \<Longrightarrow> upper_hex_digit d = upper_hex_digit e \<Longrightarrow> d = e"
  unfolding upper_hex_digit_def by (cases "d < 10"; cases "e < 10"; simp)

lemma byte_of_nibbles:
  assumes "unat (a :: byte) div 16 = unat b div 16" and "unat a mod 16 = unat b mod 16"
  shows "a = b"
proof -
  have "unat a = 16 * (unat a div 16) + unat a mod 16" by simp
  also have "\<dots> = 16 * (unat b div 16) + unat b mod 16" using assms by simp
  also have "\<dots> = unat b" by simp
  finally show ?thesis by (simp add: word_unat_eq_iff)
qed

lemma upper_hex_Nil: "upper_hex [] = []"
  by (simp add: upper_hex_def)

lemma upper_hex_Cons:
  "upper_hex (x # xs)
     = upper_hex_digit (unat x div 16) # upper_hex_digit (unat x mod 16) # upper_hex xs"
  by (simp add: upper_hex_def)

lemma nibbles_less: "unat (x :: byte) div 16 < 16 \<and> unat x mod 16 < 16"
proof -
  have "unat x < 256" using unsigned_less [of x, where ?'a = nat] by simp
  then show ?thesis by simp
qed

lemma upper_hex_inj: "upper_hex a = upper_hex b \<Longrightarrow> a = b"
proof (induction a arbitrary: b)
  case Nil
  then show ?case by (cases b) (simp_all only: upper_hex_Nil upper_hex_Cons list.simps)
next
  case (Cons x xs)
  show ?case
  proof (cases b)
    case Nil
    with Cons.prems show ?thesis
      by (simp only: upper_hex_Nil upper_hex_Cons list.simps)
  next
    case (Cons y ys)
    with Cons.prems have
      h1: "upper_hex_digit (unat x div 16) = upper_hex_digit (unat y div 16)" and
      h2: "upper_hex_digit (unat x mod 16) = upper_hex_digit (unat y mod 16)" and
      h3: "upper_hex xs = upper_hex ys"
      by (simp_all only: upper_hex_Cons list.inject)
    have "unat x div 16 = unat y div 16"
      using nibbles_less [of x] nibbles_less [of y] h1 by (blast intro: upper_hex_digit_inj)
    moreover have "unat x mod 16 = unat y mod 16"
      using nibbles_less [of x] nibbles_less [of y] h2 by (blast intro: upper_hex_digit_inj)
    ultimately have "x = y"
      by (rule byte_of_nibbles)
    moreover have "xs = ys"
      using h3 by (rule Cons.IH)
    ultimately show ?thesis
      using Cons by simp
  qed
qed

lemma hex_dir_name_inj:
  assumes "length a = 16" "length b = 16" "hex_dir_name a = hex_dir_name b"
  shows "a = b"
proof -
  have "guid_reorder a = guid_reorder b"
    using assms(3) by (simp add: hex_dir_name_def upper_hex_inj)
  then have "guid_reorder (guid_reorder a) = guid_reorder (guid_reorder b)" by simp
  then show ?thesis
    using assms(1,2) by (simp add: guid_reorder_involution)
qed

lemma UUID_bytes_le_reorder: "UUID_bytes_le u = guid_reorder (UUID_bytes u)"
  by (simp add: UUID_bytes_le_def guid_reorder_def Let_def)

lemma UUID_of_bytes_Inr:
  assumes "UUID_of_bytes b = Inr u"
  shows "UUID_bytes u = b"
proof -
  have l: "length b = 16"
    using assms by (simp add: UUID_of_bytes_def split: if_splits)
  from UUID_bytes_of_bytes [OF l] assms show ?thesis
    by simp
qed

text \<open>
  C5. The name under which a container directory or a content file is stored is one
  function of the 16 raw bytes of the identifier, the upper-case hexadecimal rendering of
  the reordered bytes: the manifest decoder computes it from the bytes it reads, and the
  content-file writer and the creation of a container directory compute it from the bytes
  they write for the identifier. The function is injective on 16-byte identifiers, and the
  reordering is its own inverse.
\<close>

theorem hex_directory_name:
  "(UUID_of_bytes b = Inr u \<longrightarrow> file_content_path p u = path_join p (hex_dir_name b))
   \<and> file_content_path p u = path_join p (hex_dir_name (UUID_bytes u))
   \<and> content_path p u = path_join p (hex_dir_name (UUID_bytes u))
   \<and> containers_dir_path p u = path_join p (hex_dir_name (UUID_bytes u))
   \<and> length (UUID_bytes u) = 16
   \<and> (length a = 16 \<and> length b = 16 \<and> hex_dir_name a = hex_dir_name b \<longrightarrow> a = b)
   \<and> (length b = 16 \<longrightarrow> guid_reorder (guid_reorder b) = b)"
  using hex_dir_name_inj [of a b] guid_reorder_involution [of b]
  by (auto simp: file_content_path_def content_path_def containers_dir_path_def
        hex_dir_name_def UUID_bytes_le_reorder str_upper_bytes_hex dest: UUID_of_bytes_Inr)

theorem hex_directory_name_witness:
  "UUID_of_bytes [0x00, 0x11, 0x22, 0x33, 0x44, 0x55, 0x66, 0x77,
                  0x88, 0x99, 0xaa, 0xbb, 0xcc, 0xdd, 0xee, 0xff]
     = Inr 0x00112233445566778899aabbccddeeff
   \<and> length [0x00, 0x11, 0x22, 0x33, 0x44, 0x55, 0x66, 0x77,
              0x88, 0x99, 0xaa, 0xbb, 0xcc, 0xdd, 0xee, 0xff :: byte] = 16
   \<and> file_content_path [ascii ''wgs''] 0x00112233445566778899aabbccddeeff
     = [ascii ''wgs'', ascii ''33221100554477668899AABBCCDDEEFF'']"
proof -
  let ?b = "[0x00, 0x11, 0x22, 0x33, 0x44, 0x55, 0x66, 0x77,
             0x88, 0x99, 0xaa, 0xbb, 0xcc, 0xdd, 0xee, 0xff :: byte]"
  have r: "UUID_of_bytes ?b = Inr 0x00112233445566778899aabbccddeeff"
    by (simp add: UUID_of_bytes_def)
  have n: "hex_dir_name ?b = ascii ''33221100554477668899AABBCCDDEEFF''"
    by (simp add: hex_dir_name_def guid_reorder_def upper_hex_def upper_hex_digit_def ascii_def)
  show ?thesis
    using r n hex_directory_name [of ?b "0x00112233445566778899aabbccddeeff" "[ascii ''wgs'']" ?b]
    by (simp add: path_join_def)
qed

section \<open>A manifest with a missing content file\<close>

lemma read_file_entries_stops:
  assumes "read_file_entries t path k s0 = (Inr fs, s1)"
      and "read_file_entry t path s1 = (Inl e, s2)"
      and "k < n"
  shows "read_file_entries t path n s0 = (Inl e, s2)"
  using assms
proof (induction k arbitrary: n s0 fs)
  case 0
  then obtain m where "n = Suc m" by (cases n) simp_all
  with 0 show ?case by (simp add: ret_def bnd_def)
next
  case (Suc k)
  from Suc.prems(3) obtain m where n: "n = Suc m" and km: "k < m" by (cases n) simp_all
  from Suc.prems(1) obtain f s' fs' where
    f: "read_file_entry t path s0 = (Inr f, s')" and
    r: "read_file_entries t path k s' = (Inr fs', s1)"
    by (auto simp: bnd_def ret_def split: prod.splits sum.splits)
  have "read_file_entries t path m s' = (Inl e, s2)"
    using r Suc.prems(2) km by (rule Suc.IH)
  with f n show ?case by (simp add: bnd_def)
qed

lemma read_file_entry_missing:
  assumes "length nb = 128" "length cb = 16" "length ib = 16"
      and "utf16_le_decode nb = Inr nm"
      and "UUID_of_bytes ib = Inr u"
      and "\<not> path_exists t (file_content_path path u)"
  shows "read_file_entry t path (nb @ cb @ ib @ later)
           = (Inl (NotSupportedError ContentFileMissing), later)"
proof -
  have 1: "stream_read (64 * 2) (nb @ cb @ ib @ later) = (Inr nb, cb @ ib @ later)"
    using assms(1) by (intro stream_read_append) simp
  have 2: "stream_read 16 (cb @ ib @ later) = (Inr cb, ib @ later)"
    using assms(2) by (intro stream_read_append) simp
  have 3: "stream_read 16 (ib @ later) = (Inr ib, later)"
    using assms(3) by (intro stream_read_append) simp
  show ?thesis
    using assms(4-6) 1 2 3
    by (simp add: read_file_entry_def read_utf16_fixed_string_def bnd_def lift_result_def
          ret_def raise_def)
qed

lemma file_content_path_not_root [simp]: "file_content_path p u \<noteq> []"
  by (simp add: file_content_path_def path_join_def)

lemma read_file_entry_ok:
  assumes "bmp v" "length v \<le> 64"
      and "t (file_content_path path u) = Some (File d)"
  shows "read_file_entry t path (element_bytes v u @ rest)
         = (Inr \<lparr>file_name = rstrip_nul v, file_uuid = u, data = Some d, source_path = None\<rparr>,
            rest)"
proof -
  have 1: "read_utf16_fixed_string 64
      (bmp_bytes v @ replicate (2 * (64 - length v)) 0 @ replicate 16 0 @ UUID_bytes u @ rest)
      = (Inr (rstrip_nul v), replicate 16 0 @ UUID_bytes u @ rest)"
    using assms(1,2) by (rule read_fixed_padded)
  have 2: "stream_read 16 (replicate 16 0 @ UUID_bytes u @ rest)
      = (Inr (replicate 16 0), UUID_bytes u @ rest)"
    by (intro stream_read_append) simp
  have 3: "stream_read 16 (UUID_bytes u @ rest) = (Inr (UUID_bytes u), rest)"
    by (intro stream_read_append) simp
  show ?thesis
    using assms(3) 1 2 3
    by (simp add: read_file_entry_def element_bytes_def bnd_def lift_result_def ret_def
          raise_def UUID_of_bytes_bytes path_exists_def read_file_def)
qed

lemma file_content_path_inj: "file_content_path p u = file_content_path p v \<longleftrightarrow> u = v"
proof
  assume "file_content_path p u = file_content_path p v"
  then have "hex_dir_name (UUID_bytes u) = hex_dir_name (UUID_bytes v)"
    by (simp add: file_content_path_def path_join_def UUID_bytes_le_reorder
          str_upper_bytes_hex hex_dir_name_def)
  then have "UUID_bytes u = UUID_bytes v"
    by (intro hex_dir_name_inj) simp_all
  then have "UUID_of_bytes (UUID_bytes u) = UUID_of_bytes (UUID_bytes v)"
    by simp
  then show "u = v"
    by (simp add: UUID_of_bytes_bytes)
qed simp

lemma from_stream_header:
  assumes "n < 2 ^ 32"
  shows "ContainerFileList_from_stream t p q (little_bytes 4 4 @ little_bytes 4 (int n) @ s0)
           = (case read_file_entries t p n s0 of
                (Inl e, s') \<Rightarrow> (Inl e, s')
              | (Inr fs, s') \<Rightarrow> (Inr \<lparr>fl_seq = q, files = fs\<rparr>, s'))"
proof -
  have "fits 4 4" "fits 4 (int n)"
    using assms by (simp_all add: fits_def)
  then show ?thesis
    by (simp add: ContainerFileList_from_stream_def bnd_def read_u32_fits ret_def
          split: prod.splits sum.splits)
qed

lemma read_file_entry_bad_name:
  assumes "length nb = 128" and "utf16_le_decode nb = Inl e"
  shows "read_file_entry t path (nb @ rest) = (Inl e, rest)"
proof -
  have "stream_read (64 * 2) (nb @ rest) = (Inr nb, rest)"
    using assms(1) by (intro stream_read_append) simp
  then show ?thesis
    using assms(2)
    by (simp add: read_file_entry_def read_utf16_fixed_string_def bnd_def lift_result_def)
qed

lemma read_file_entry_present:
  assumes "bmp v" "length v \<le> 64"
      and "path_exists t (file_content_path path u)"
  shows "read_file_entry t path (element_bytes v u @ rest)
         = (case read_file t (file_content_path path u) of
              Inl e \<Rightarrow> Inl e
            | Inr d \<Rightarrow> Inr \<lparr>file_name = rstrip_nul v, file_uuid = u, data = Some d,
                             source_path = None\<rparr>,
            rest)"
proof -
  have 1: "read_utf16_fixed_string 64
      (bmp_bytes v @ replicate (2 * (64 - length v)) 0 @ replicate 16 0 @ UUID_bytes u @ rest)
      = (Inr (rstrip_nul v), replicate 16 0 @ UUID_bytes u @ rest)"
    using assms(1,2) by (rule read_fixed_padded)
  have 2: "stream_read 16 (replicate 16 0 @ UUID_bytes u @ rest)
      = (Inr (replicate 16 0), UUID_bytes u @ rest)"
    by (intro stream_read_append) simp
  have 3: "stream_read 16 (UUID_bytes u @ rest) = (Inr (UUID_bytes u), rest)"
    by (intro stream_read_append) simp
  show ?thesis
    using assms(3) 1 2 3
    by (simp add: read_file_entry_def element_bytes_def bnd_def lift_result_def ret_def
          raise_def UUID_of_bytes_bytes split: sum.splits)
qed

lemma lone_surrogate_name:
  "utf16_le_decode ([0, 0xD8] @ replicate 126 0) = Inl UnicodeDecodeError"
proof -
  have "list_all (\<lambda>c. c < 0x10000) (replicate 63 (0::nat))"
    by (simp add: list_all_iff)
  then have "units_of_bytes (bmp_bytes (replicate 63 0)) = Inr (replicate 63 0)"
    by (rule units_of_bmp_bytes)
  then have u: "units_of_bytes (replicate 126 0) = Inr (replicate 63 0)"
    by (simp add: bmp_bytes_replicate_0)
  have r: "replicate 63 (0::nat) = 0 # replicate 62 0"
    by (simp add: numeral_eq_Suc)
  show ?thesis
    by (simp add: utf16_le_decode_def u r is_surrogate_def)
qed

lemma element_missing:
  assumes "bmp v" "length v \<le> 64" "\<not> path_exists t (file_content_path path u)"
  shows "read_file_entry t path (element_bytes v u @ rest)
           = (Inl (NotSupportedError ContentFileMissing), rest)"
proof -
  have "read_file_entry t path
      ((bmp_bytes v @ replicate (2 * (64 - length v)) 0) @ replicate 16 0 @ UUID_bytes u @ rest)
      = (Inl (NotSupportedError ContentFileMissing), rest)"
  proof (rule read_file_entry_missing)
    show "length (bmp_bytes v @ replicate (2 * (64 - length v)) (0::byte)) = 128"
      using assms(2) by (simp add: length_bmp_bytes)
    show "utf16_le_decode (bmp_bytes v @ replicate (2 * (64 - length v)) 0)
            = Inr (v @ replicate (64 - length v) 0)"
      using assms(1) by (rule decode_padded)
    show "UUID_of_bytes (UUID_bytes u) = Inr u"
      by (rule UUID_of_bytes_bytes)
  qed (use assms(3) in simp_all)
  then show ?thesis
    by (simp add: element_bytes_def)
qed

text \<open>
  C8, as stated: when the element at position k of a manifest with declared count n names an
  identifier that has no content file in the directory, decoding fails with the
  missing-content-file error right after the fields of element k. It fails in three ways,
  each on the directory wgs. With count 1 and an element whose name field is a lone
  surrogate, the name is decoded first and raises UnicodeDecodeError before the identifier
  is read. With count 2 and no content file for either element, decoding stops after
  element 0, so the fields of element 1 are never read. With count 1 and a directory at the
  path of the content file, the file is looked for, found to exist, and reading it raises
  IsADirectoryError.
\<close>

theorem missing_content_file_other_outcomes:
  "ContainerFileList_from_stream Map.empty [ascii ''wgs''] 1
      (little_bytes 4 4 @ little_bytes 4 1
       @ ([0, 0xD8] @ replicate 126 0) @ replicate 16 0 @ UUID_bytes 1 @ [7, 7])
     = (Inl UnicodeDecodeError, replicate 16 0 @ UUID_bytes 1 @ [7, 7])
   \<and> \<not> path_exists Map.empty (file_content_path [ascii ''wgs''] 1)
   \<and> ContainerFileList_from_stream Map.empty [ascii ''wgs''] 1
      (little_bytes 4 4 @ little_bytes 4 2
       @ element_bytes (ascii ''Data'') 1 @ element_bytes (ascii ''Data'') 2 @ [7, 7])
     = (Inl (NotSupportedError ContentFileMissing), element_bytes (ascii ''Data'') 2 @ [7, 7])
   \<and> \<not> path_exists Map.empty (file_content_path [ascii ''wgs''] 2)
   \<and> ContainerFileList_from_stream [file_content_path [ascii ''wgs''] 1 \<mapsto> Dir]
      [ascii ''wgs''] 1
      (little_bytes 4 4 @ little_bytes 4 1 @ element_bytes (ascii ''Data'') 1 @ [7, 7])
     = (Inl IsADirectoryError, [7, 7])"
proof (intro conjI)
  have b: "bmp (ascii ''Data'')"
    by (simp add: bmp_def ascii_def is_surrogate_def)
  have l: "length (ascii ''Data'') \<le> 64"
    by (simp add: ascii_def)
  show n1: "\<not> path_exists Map.empty (file_content_path [ascii ''wgs''] 1)"
    by (simp add: path_exists_def)
  show n2: "\<not> path_exists Map.empty (file_content_path [ascii ''wgs''] 2)"
    by (simp add: path_exists_def)
  have "read_file_entry Map.empty [ascii ''wgs'']
      (([0, 0xD8] @ replicate 126 0) @ replicate 16 0 @ UUID_bytes 1 @ [7, 7])
      = (Inl UnicodeDecodeError, replicate 16 0 @ UUID_bytes 1 @ [7, 7])"
    by (rule read_file_entry_bad_name [OF _ lone_surrogate_name]) simp
  then have "read_file_entries Map.empty [ascii ''wgs''] 1
      (([0, 0xD8] @ replicate 126 0) @ replicate 16 0 @ UUID_bytes 1 @ [7, 7])
      = (Inl UnicodeDecodeError, replicate 16 0 @ UUID_bytes 1 @ [7, 7])"
    by (simp add: bnd_def)
  then show "ContainerFileList_from_stream Map.empty [ascii ''wgs''] 1
      (little_bytes 4 4 @ little_bytes 4 1
       @ ([0, 0xD8] @ replicate 126 0) @ replicate 16 0 @ UUID_bytes 1 @ [7, 7])
     = (Inl UnicodeDecodeError, replicate 16 0 @ UUID_bytes 1 @ [7, 7])"
    using from_stream_header [of 1 Map.empty "[ascii ''wgs'']" 1] by simp
  have "read_file_entry Map.empty [ascii ''wgs'']
      (element_bytes (ascii ''Data'') 1 @ element_bytes (ascii ''Data'') 2 @ [7, 7])
      = (Inl (NotSupportedError ContentFileMissing), element_bytes (ascii ''Data'') 2 @ [7, 7])"
    using b l n1 by (rule element_missing)
  then have "read_file_entries Map.empty [ascii ''wgs''] 2
      (element_bytes (ascii ''Data'') 1 @ element_bytes (ascii ''Data'') 2 @ [7, 7])
      = (Inl (NotSupportedError ContentFileMissing), element_bytes (ascii ''Data'') 2 @ [7, 7])"
    by (simp add: bnd_def numeral_2_eq_2)
  then show "ContainerFileList_from_stream Map.empty [ascii ''wgs''] 1
      (little_bytes 4 4 @ little_bytes 4 2
       @ element_bytes (ascii ''Data'') 1 @ element_bytes (ascii ''Data'') 2 @ [7, 7])
     = (Inl (NotSupportedError ContentFileMissing), element_bytes (ascii ''Data'') 2 @ [7, 7])"
    using from_stream_header [of 2 Map.empty "[ascii ''wgs'']" 1] by simp
  have "read_file_entry [file_content_path [ascii ''wgs''] 1 \<mapsto> Dir] [ascii ''wgs'']
      (element_bytes (ascii ''Data'') 1 @ [7, 7]) = (Inl IsADirectoryError, [7, 7])"
    using read_file_entry_present [OF b l,
      of "[file_content_path [ascii ''wgs''] 1 \<mapsto> Dir]" "[ascii ''wgs'']" 1 "[7, 7]"]
    by (simp add: path_exists_def read_file_def)
  then have "read_file_entries [file_content_path [ascii ''wgs''] 1 \<mapsto> Dir] [ascii ''wgs''] 1
      (element_bytes (ascii ''Data'') 1 @ [7, 7]) = (Inl IsADirectoryError, [7, 7])"
    by (simp add: bnd_def)
  then show "ContainerFileList_from_stream [file_content_path [ascii ''wgs''] 1 \<mapsto> Dir]
      [ascii ''wgs''] 1
      (little_bytes 4 4 @ little_bytes 4 1 @ element_bytes (ascii ''Data'') 1 @ [7, 7])
     = (Inl IsADirectoryError, [7, 7])"
    using from_stream_header [of 1 "[file_content_path [ascii ''wgs''] 1 \<mapsto> Dir]"
      "[ascii ''wgs'']" 1] by simp
qed

text \<open>
  C8, amended: in a manifest of version 4 whose declared element count is n, let the
  elements before position k (k < n) be decoded, their names well-formed and their content
  files read, let the stream hold the 160 bytes of element k, and let element k hold a name
  field that decodes as UTF-16 and an identifier at whose path in the directory of the
  manifest nothing exists. Then \<open>ContainerFileList.from_stream\<close> fails with the
  missing-content-file error, and the stream is left right after the 160 bytes of
  element k: no byte of the elements after position k is consumed.
\<close>

theorem missing_content_file_stops_decoding:
  assumes "read_u32 s = (Inr 4, sa)" and "read_u32 sa = (Inr (int n), s0)"
      and "read_file_entries t path k s0 = (Inr fs, s1)"
      and "k < n"
      and "s1 = nb @ cb @ ib @ later"
      and "length nb = 128" and "length cb = 16" and "length ib = 16"
      and "utf16_le_decode nb = Inr nm"
      and "UUID_of_bytes ib = Inr u"
      and "\<not> path_exists t (file_content_path path u)"
  shows "ContainerFileList_from_stream t path seq0 s
           = (Inl (NotSupportedError ContentFileMissing), later)"
proof -
  have "read_file_entry t path s1 = (Inl (NotSupportedError ContentFileMissing), later)"
    unfolding assms(5) using assms(6-11) by (rule read_file_entry_missing)
  with assms(3) have "read_file_entries t path n s0
      = (Inl (NotSupportedError ContentFileMissing), later)"
    using assms(4) by (rule read_file_entries_stops)
  then show ?thesis
    using assms(1,2) by (simp add: ContainerFileList_from_stream_def bnd_def)
qed

theorem missing_content_file_stops_decoding_witness:
  "ContainerFileList_from_stream
      [file_content_path [ascii ''wgs''] 1 \<mapsto> File [1, 2, 3]] [ascii ''wgs''] 1
      (little_bytes 4 4 @ little_bytes 4 (int 2)
       @ element_bytes (ascii ''Data'') 1 @ element_bytes (ascii ''Data'') 2 @ [7, 7])
     = (Inl (NotSupportedError ContentFileMissing), [7, 7])
   \<and> read_file_entries
      [file_content_path [ascii ''wgs''] 1 \<mapsto> File [1, 2, 3]] [ascii ''wgs''] 1
      (element_bytes (ascii ''Data'') 1 @ element_bytes (ascii ''Data'') 2 @ [7, 7])
     = (Inr [\<lparr>file_name = ascii ''Data'', file_uuid = 1, data = Some [1, 2, 3],
                source_path = None\<rparr>],
        element_bytes (ascii ''Data'') 2 @ [7, 7])
   \<and> \<not> path_exists [file_content_path [ascii ''wgs''] 1 \<mapsto> File [1, 2, 3]]
         (file_content_path [ascii ''wgs''] 2)"
proof -
  let ?t = "[file_content_path [ascii ''wgs''] 1 \<mapsto> File [1, 2, 3]]"
  let ?p = "[ascii ''wgs'']"
  let ?nb = "bmp_bytes (ascii ''Data'') @ replicate (2 * (64 - length (ascii ''Data''))) 0"
  let ?s0 = "element_bytes (ascii ''Data'') 1 @ element_bytes (ascii ''Data'') 2 @ [7, 7]"
  have b: "bmp (ascii ''Data'')"
    by (simp add: bmp_def ascii_def is_surrogate_def)
  have l: "length (ascii ''Data'') \<le> 64"
    by (simp add: ascii_def)
  have s: "rstrip_nul (ascii ''Data'') = ascii ''Data''"
    by (simp add: rstrip_nul_def ascii_def)
  have h1: "read_u32 (little_bytes 4 4 @ little_bytes 4 (int 2) @ ?s0)
      = (Inr 4, little_bytes 4 (int 2) @ ?s0)"
    by (rule read_u32_fits) (simp add: fits_def)
  have h2: "read_u32 (little_bytes 4 (int 2) @ ?s0) = (Inr (int 2), ?s0)"
    by (rule read_u32_fits) (simp add: fits_def)
  have e0: "read_file_entry ?t ?p ?s0
      = (Inr \<lparr>file_name = ascii ''Data'', file_uuid = 1, data = Some [1, 2, 3],
               source_path = None\<rparr>, element_bytes (ascii ''Data'') 2 @ [7, 7])"
    using read_file_entry_ok [OF b l, of ?t ?p 1 "[1, 2, 3]"] s by simp
  have h3: "read_file_entries ?t ?p 1 ?s0
      = (Inr [\<lparr>file_name = ascii ''Data'', file_uuid = 1, data = Some [1, 2, 3],
                source_path = None\<rparr>], element_bytes (ascii ''Data'') 2 @ [7, 7])"
    using e0 by (simp add: bnd_def ret_def)
  have h4: "(1::nat) < 2"
    by simp
  have h5: "element_bytes (ascii ''Data'') 2 @ [7, 7]
      = ?nb @ replicate 16 0 @ UUID_bytes 2 @ [7, 7]"
    by (simp add: element_bytes_def)
  have h6: "length ?nb = 128"
    by (simp add: length_bmp_bytes ascii_def)
  have h7: "length (replicate 16 (0::byte)) = 16"
    by simp
  have h8: "length (UUID_bytes 2) = 16"
    by simp
  have h9: "utf16_le_decode ?nb
      = Inr (ascii ''Data'' @ replicate (64 - length (ascii ''Data'')) 0)"
    using b by (rule decode_padded)
  have h10: "UUID_of_bytes (UUID_bytes 2) = Inr 2"
    by (rule UUID_of_bytes_bytes)
  have h11: "\<not> path_exists ?t (file_content_path ?p 2)"
    by (simp add: path_exists_def file_content_path_inj)
  show ?thesis
    using h3 h11
      missing_content_file_stops_decoding [OF h1 h2 h3 h4 h5 h6 h7 h8 h9 h10 h11, of 1]
    by simp
qed

section \<open>Entries the importer creates\<close>

lemma length_upper_hex: "length (upper_hex bs) = 2 * length bs"
  by (induction bs) (simp_all add: upper_hex_Nil upper_hex_Cons)

lemma length_hex_name: "length (str_upper (bytes_hex (UUID_bytes_le u))) = 32"
  by (simp add: str_upper_bytes_hex length_upper_hex UUID_bytes_le_reorder length_guid_reorder)

lemma hex_name_not_manifest: "str_upper (bytes_hex (UUID_bytes_le u)) \<noteq> container_dot @ int_str 1"
proof
  assume "str_upper (bytes_hex (UUID_bytes_le u)) = container_dot @ int_str 1"
  then have "length (str_upper (bytes_hex (UUID_bytes_le u))) = length (container_dot @ int_str 1)"
    by simp
  then show False
    by (simp add: length_hex_name container_dot_def int_str_def ascii_def)
qed

lemma created_non_dry:
  "\<exists>t'. create_container_entry False 1 2 (Some (FileTime 5, 3)) [ascii ''Level.sav'']
      (ascii ''Save1-Level'') [ascii ''wgs'']
      [[ascii ''wgs''] \<mapsto> Dir, [ascii ''Level.sav''] \<mapsto> File [1, 2, 3]]
     = Inr (\<lparr>container_name = ascii ''Save1-Level'', cloud_id = [], seq = 1, flag = 5,
             container_uuid = 2, mtime = FileTime 5, csize = 3\<rparr>, t')"
proof -
  have b: "bmp (ascii ''Data'')"
    by (simp add: bmp_def ascii_def is_surrogate_def)
  have w: "write_utf16_fixed_string (ascii ''Data'') 64
     = Inr (bmp_bytes (ascii ''Data'') @ replicate (2 * (64 - length (ascii ''Data''))) 0)"
    using write_fixed_padded [OF b, of 64] by (simp add: ascii_def)
  have a: "ascii ''wgs'' \<noteq> ascii ''Level.sav''"
    by (simp add: ascii_inj)
  show ?thesis
    using a
    by (simp add: create_container_entry_def containers_dir_path_def content_path_def
          path_join_def write_container_def write_file_def is_dir_def read_file_def w
          write_u32_def to_bytes_little_def wseq_def hex_name_not_manifest butlast_append
          makedirs_def)
qed

text \<open>
  C10. Every container entry that \<open>_create_container_entry\<close> returns has an empty cloud
  id, sequence number 1 and flag 5, so bit 2 (value 4) of the flag is set while the cloud
  id is empty.
\<close>

theorem created_entry_fields:
  assumes "create_container_entry dry_run content_id container_id stat source_file name
             base_xbox_path t = Inr (c, t')"
  shows "cloud_id c = [] \<and> seq c = 1 \<and> flag c = 5 \<and> flag c AND 4 \<noteq> 0
         \<and> container_name c = name"
proof -
  have "flag c = 5 \<and> cloud_id c = [] \<and> seq c = 1 \<and> container_name c = name"
    using assms
    by (auto simp: create_container_entry_def Let_def
             split: option.splits sum.splits if_splits prod.splits)
  moreover have "(5::int) AND 4 \<noteq> 0"
    by simp
  ultimately show ?thesis
    by simp
qed

theorem created_entry_fields_witness:
  "\<exists>t'. create_container_entry False 1 2 (Some (FileTime 5, 3)) [ascii ''Level.sav'']
      (ascii ''Save1-Level'') [ascii ''wgs'']
      [[ascii ''wgs''] \<mapsto> Dir, [ascii ''Level.sav''] \<mapsto> File [1, 2, 3]]
     = Inr (\<lparr>container_name = ascii ''Save1-Level'', cloud_id = [], seq = 1, flag = 5,
             container_uuid = 2, mtime = FileTime 5, csize = 3\<rparr>, t')
   \<and> flag \<lparr>container_name = ascii ''Save1-Level'', cloud_id = [], seq = 1, flag = 5,
             container_uuid = 2, mtime = FileTime 5, csize = 3\<rparr> AND 4 \<noteq> 0"
proof -
  from created_non_dry obtain t' where
    r: "create_container_entry False 1 2 (Some (FileTime 5, 3)) [ascii ''Level.sav'']
      (ascii ''Save1-Level'') [ascii ''wgs'']
      [[ascii ''wgs''] \<mapsto> Dir, [ascii ''Level.sav''] \<mapsto> File [1, 2, 3]]
     = Inr (\<lparr>container_name = ascii ''Save1-Level'', cloud_id = [], seq = 1, flag = 5,
             container_uuid = 2, mtime = FileTime 5, csize = 3\<rparr>, t')"
    by blast
  show ?thesis
    using r created_entry_fields [OF r] by blast
qed

end
